theory Spec2Isabelle
  imports Complex_Main "HOL-Library.Multiset"
begin

section \<open>The loop registry and code compiler of project-papa-client\<close>

text \<open>
  The development embeds \<^verbatim>\<open>src/generation/Coordinator.ts\<close> and
  \<^verbatim>\<open>src/generation/LiveLoop.ts\<close>. A \<^verbatim>\<open>LiveLoop\<close> object is shared between its
  caller and the coordinator's sets and is mutated in place, so the objects live in
  an explicit store: a reference is the address of an object, and the store maps
  addresses to the objects' fields. The constructor gives the object number
  \<^verbatim>\<open>idCount\<close> the address \<^verbatim>\<open>idCount\<close>. The class \<^verbatim>\<open>LiveLoop\<close> holds one
  static coordinator and one static counter, so one state record carries both.
\<close>

subsection \<open>JavaScript values\<close>

text \<open>
  \<^verbatim>\<open>undefined\<close> is \<open>None\<close>. String concatenation turns it into the text
  \<^verbatim>\<open>undefined\<close>.
\<close>

definition js_string :: "string option \<Rightarrow> string" where
  "js_string v = (case v of None \<Rightarrow> ''undefined'' | Some t \<Rightarrow> t)"

fun showNat :: "nat \<Rightarrow> string" where
  "showNat n =
     (if n < 10 then [''0123456789'' ! n]
      else showNat (n div 10) @ [''0123456789'' ! (n mod 10)])"

declare showNat.simps [simp del]

definition showInt :: "int \<Rightarrow> string" where
  "showInt k = (if k < 0 then ''-'' @ showNat (nat (- k)) else showNat (nat k))"

text \<open>A channel number, or \<^verbatim>\<open>undefined\<close>, in a string concatenation.\<close>

definition js_number :: "nat option \<Rightarrow> string" where
  "js_number v = (case v of None \<Rightarrow> ''undefined'' | Some n \<Rightarrow> showNat n)"

text \<open>
  The remainder operator \<^verbatim>\<open>%\<close> of JavaScript on integers: the quotient is
  truncated towards zero, so the result has the sign of the dividend. A zero divisor
  (which JavaScript answers with NaN) is outside the model: the effect count is the
  size of a static table.
\<close>

definition js_rem :: "int \<Rightarrow> int \<Rightarrow> int" where
  "js_rem a b = sgn a * (\<bar>a\<bar> mod \<bar>b\<bar>)"

subsection \<open>The directory and the host\<close>

text \<open>
  \<^verbatim>\<open>./directory\<close> and \<^verbatim>\<open>./Effect\<close> are not among the sources, so the three
  functions imported from the directory are parameters. Of an effect the code reads
  the name only. The volume is a JavaScript number; it is compared and stored, never
  computed with, so it is a real here (NaN is outside the model). Its conversion to
  text is the language's: an integral number below \<open>10\<^sup>2\<^sup>1\<close> prints as its decimal
  digits, and the printing of every other number is the parameter
  \<open>fractionToString\<close>.
\<close>

record effect =
  name :: string

record env =
  getRubyForLiveLoop :: "string \<Rightarrow> string"
  getEffect :: "int \<Rightarrow> effect"
  getNumberOfEffects :: int
  fractionToString :: "real \<Rightarrow> string"

definition numberToString :: "env \<Rightarrow> real \<Rightarrow> string" where
  "numberToString e v =
     (if v = of_int \<lfloor>v\<rfloor> \<and> \<bar>v\<bar> < 10 ^ 21 then showInt \<lfloor>v\<rfloor> else fractionToString e v)"

subsection \<open>Objects and state\<close>

type_synonym ref = nat

text \<open>
  The fields of \<^verbatim>\<open>LiveLoop\<close>. \<^verbatim>\<open>rawRuby\<close> and \<^verbatim>\<open>outputRuby\<close> are declared
  without an initialiser, so they start \<^verbatim>\<open>undefined\<close>; \<^verbatim>\<open>scopeNum\<close> holds what
  \<^verbatim>\<open>getFreeScope\<close> returned, which is \<^verbatim>\<open>undefined\<close> for an empty array. The field
  \<^verbatim>\<open>name\<close> is never written or read and is left out; the field \<^verbatim>\<open>id\<close> is
  \<open>loopId\<close>.
\<close>

record liveloop =
  rawRuby :: "string option"
  volume :: real
  outputRuby :: "string option"
  loopId :: nat
  tag :: string
  effectNum :: int
  effectData :: effect
  scopeNum :: "nat option"

text \<open>
  The coordinator's fields, the static counter, the store, and the texts handed to
  \<^verbatim>\<open>communicator.runCode\<close>, oldest first. A \<^verbatim>\<open>Set\<close> is the list of its members
  in insertion order, which is the order its iteration follows.
\<close>

record state =
  freeScopeNums :: "nat option list"
  activeLoops :: "ref list"
  deadLoops :: "ref list"
  coordOutputRuby :: "string option"
  runCode :: "string list"
  idCount :: nat
  loops :: "ref \<Rightarrow> liveloop option"

definition set_add :: "ref \<Rightarrow> ref list \<Rightarrow> ref list" where
  "set_add r rs = (if r \<in> set rs then rs else rs @ [r])"

definition set_delete :: "ref \<Rightarrow> ref list \<Rightarrow> ref list" where
  "set_delete r rs = removeAll r rs"

text \<open>
  Reading a field through a reference. Every reference the program holds points to a
  constructed object (\<open>refs_allocated\<close> below), so the branch for a missing object is
  never taken.
\<close>

definition getRuby :: "state \<Rightarrow> ref \<Rightarrow> string option" where
  "getRuby s r = (case loops s r of None \<Rightarrow> None | Some l \<Rightarrow> outputRuby l)"

definition getTag :: "state \<Rightarrow> ref \<Rightarrow> string" where
  "getTag s r = (case loops s r of None \<Rightarrow> ''undefined'' | Some l \<Rightarrow> tag l)"

definition getScopeNum :: "state \<Rightarrow> ref \<Rightarrow> nat option" where
  "getScopeNum s r = (case loops s r of None \<Rightarrow> None | Some l \<Rightarrow> scopeNum l)"

definition modify :: "ref \<Rightarrow> (liveloop \<Rightarrow> liveloop) \<Rightarrow> state \<Rightarrow> state" where
  "modify r f s =
     (case loops s r of None \<Rightarrow> s | Some l \<Rightarrow> s\<lparr>loops := (loops s)(r \<mapsto> f l)\<rparr>)"

subsection \<open>Coordinator\<close>

definition GLOBAL_OSCILLOSCOPE_INDEX :: nat where
  "GLOBAL_OSCILLOSCOPE_INDEX = 1"

definition header :: string where
  "header =
     ''use_bpm 100\<newline>'' @
     ''\<newline>'' @
     ''    live_loop :metronome_2 do\<newline>'' @
     ''      sleep 2\<newline>'' @
     ''    end\<newline>'' @
     ''\<newline>'' @
     ''    live_loop :metronome_4 do\<newline>'' @
     ''      sync :metronome_2\<newline>'' @
     ''      with_fx :level, amp: 0.5 do\<newline>'' @
     ''        use_synth :chipbass\<newline>'' @
     ''        play 110, amp: 5, release: 0.02\<newline>'' @
     ''        sleep 1\<newline>'' @
     ''        play 90, release: 0.01\<newline>'' @
     ''        sleep 1\<newline>'' @
     ''        play 90, release: 0.01\<newline>'' @
     ''        sleep 1\<newline>'' @
     ''        play 90, release: 0.01\<newline>'' @
     ''        sleep 1\<newline>'' @
     ''      end\<newline>'' @
     ''    end\<newline>'' @
     ''\<newline>'' @
     ''    live_loop :metronome_8 do\<newline>'' @
     ''      sync :metronome_4\<newline>'' @
     ''      sleep 8\<newline>'' @
     ''    end''"

text \<open>The constructor's loop \<^verbatim>\<open>for (let i = 2; i < 128; i++) push(i)\<close>.\<close>

function pushScopes :: "nat \<Rightarrow> nat option list \<Rightarrow> nat option list" where
  "pushScopes i acc = (if i < 128 then pushScopes (i + 1) (acc @ [Some i]) else acc)"
  by pat_completeness auto
termination
  by (relation "measure (\<lambda>(i, acc). 128 - i)") auto

declare pushScopes.simps [simp del]

text \<open>
  The state once the class \<^verbatim>\<open>LiveLoop\<close> is loaded: its static coordinator is
  constructed, no loop exists.
\<close>

definition fresh :: state where
  "fresh =
     \<lparr>freeScopeNums = pushScopes 2 [], activeLoops = [], deadLoops = [],
      coordOutputRuby = None, runCode = [], idCount = 0, loops = (\<lambda>r. None)\<rparr>"

text \<open>\<^verbatim>\<open>Array.shift\<close> returns \<^verbatim>\<open>undefined\<close> on an empty array and leaves it empty.\<close>

definition getFreeScope :: "state \<Rightarrow> nat option \<times> state" where
  "getFreeScope s =
     (case freeScopeNums s of
        [] \<Rightarrow> (None, s)
      | x # xs \<Rightarrow> (x, s\<lparr>freeScopeNums := xs\<rparr>))"

definition global_wrap :: "string \<Rightarrow> string" where
  \<open>global_wrap body =
     ''\<newline>      with_fx "sonic-pi-fx_scope_out", scope_num: '' @ showNat GLOBAL_OSCILLOSCOPE_INDEX
     @ '' do\<newline>        '' @ body @ ''\<newline>      end\<newline>    ''\<close>

definition stop_block :: "state \<Rightarrow> ref \<Rightarrow> string" where
  "stop_block s r = ''live_loop :'' @ getTag s r @ '' do\<newline>  stop\<newline>end\<newline>''"

definition Coordinator_generateRuby :: "state \<Rightarrow> state" where
  "Coordinator_generateRuby s =
     (let out0 = header @ ''\<newline>'';
          out1 = foldl (\<lambda>out r. out @ js_string (getRuby s r) @ ''\<newline>'') out0 (activeLoops s);
          out2 = global_wrap out1;
          out3 = (if length (deadLoops s) \<noteq> 0
                  then foldl (\<lambda>out r. out @ stop_block s r) out2 (deadLoops s)
                  else out2);
          dead = (if length (deadLoops s) \<noteq> 0 then [] else deadLoops s)
      in s\<lparr>coordOutputRuby := Some out3, deadLoops := dead, runCode := runCode s @ [out3]\<rparr>)"

definition addLoopToSet :: "ref \<Rightarrow> state \<Rightarrow> state" where
  "addLoopToSet r s = Coordinator_generateRuby (s\<lparr>activeLoops := set_add r (activeLoops s)\<rparr>)"

datatype error = Error string

definition removeLoopFromSet :: "ref \<Rightarrow> state \<Rightarrow> error + state" where
  "removeLoopFromSet r s =
     (if r \<notin> set (activeLoops s)
      then Inl (Error (''Loop tag '' @ getTag s r @ '' not present.''))
      else Inr (Coordinator_generateRuby
                 (s\<lparr>activeLoops := set_delete r (activeLoops s),
                    deadLoops := set_add r (deadLoops s),
                    freeScopeNums := freeScopeNums s @ [getScopeNum s r]\<rparr>)))"

subsection \<open>LiveLoop\<close>

definition LiveLoop_generateRuby :: "env \<Rightarrow> liveloop \<Rightarrow> liveloop" where
  \<open>LiveLoop_generateRuby e l =
     (let out0 = rawRuby l;
          out1 = ''with_fx :'' @ name (effectData l) @ '' do\<newline>'' @ js_string out0 @ ''\<newline>end\<newline>'';
          out2 = ''with_fx :level, amp: '' @ numberToString e (volume l)
                 @ '' do\<newline>'' @ out1 @ ''\<newline>end\<newline>'';
          out3 = ''with_fx "sonic-pi-fx_scope_out", scope_num: '' @ js_number (scopeNum l)
                 @ '' do\<newline>'' @ out2 @ ''\<newline>end\<newline>'';
          out4 = ''live_loop :'' @ tag l @ '' do\<newline>'' @ out3 @ ''\<newline>end''
      in l\<lparr>outputRuby := Some out4\<rparr>)\<close>

text \<open>
  The constructor. The body looked up in the directory is bound to a local constant
  of the constructor; the field \<^verbatim>\<open>rawRuby\<close> is not assigned.
\<close>

definition LiveLoop_new :: "env \<Rightarrow> string \<Rightarrow> state \<Rightarrow> ref \<times> state" where
  "LiveLoop_new e nm s =
     (let (sc, s1) = getFreeScope s;
          rawRuby_local = getRubyForLiveLoop e nm;
          i = idCount s1;
          s2 = s1\<lparr>idCount := i + 1\<rparr>;
          this = \<lparr>rawRuby = None, volume = 1, outputRuby = None, loopId = i,
                  tag = ''loop_'' @ showNat i @ ''_'' @ nm,
                  effectNum = 0, effectData = getEffect e 0, scopeNum = sc\<rparr>;
          s3 = s2\<lparr>loops := (loops s2)(i \<mapsto> LiveLoop_generateRuby e this)\<rparr>
      in (i, addLoopToSet i s3))"

definition setVolume :: "ref \<Rightarrow> real \<Rightarrow> state \<Rightarrow> state" where
  "setVolume r v s =
     (if v < 0 then modify r (\<lambda>l. l\<lparr>volume := 0\<rparr>) s
      else if v > 1 then modify r (\<lambda>l. l\<lparr>volume := 1\<rparr>) s
      else modify r (\<lambda>l. l\<lparr>volume := v\<rparr>) s)"

definition generateAndPushRuby :: "env \<Rightarrow> ref \<Rightarrow> state \<Rightarrow> state" where
  "generateAndPushRuby e r s = Coordinator_generateRuby (modify r (LiveLoop_generateRuby e) s)"

definition nextEffect :: "env \<Rightarrow> ref \<Rightarrow> state \<Rightarrow> state" where
  "nextEffect e r s =
     (let s1 = modify r (\<lambda>l. l\<lparr>effectNum := js_rem (effectNum l + 1) (getNumberOfEffects e)\<rparr>) s;
          s2 = modify r (\<lambda>l. l\<lparr>effectData := getEffect e (effectNum l)\<rparr>) s1
      in generateAndPushRuby e r s2)"

definition prevEffect :: "env \<Rightarrow> ref \<Rightarrow> state \<Rightarrow> state" where
  "prevEffect e r s =
     (let s1 = modify r (\<lambda>l. l\<lparr>effectNum := js_rem (effectNum l - 1) (getNumberOfEffects e)\<rparr>) s;
          s2 = modify r (\<lambda>l. l\<lparr>effectData := getEffect e (effectNum l)\<rparr>) s1
      in generateAndPushRuby e r s2)"

definition delete :: "ref \<Rightarrow> state \<Rightarrow> error + state" where
  "delete r s = removeLoopFromSet r s"

subsection \<open>Calls from outside\<close>

text \<open>
  The public methods of \<^verbatim>\<open>LiveLoop\<close> that change state, as calls. A call returns
  the state it leaves and the exception it raised, if any. The only \<^verbatim>\<open>throw\<close> of
  the two classes comes before any assignment, so the state an exception leaves is
  the state the call found. A method cannot be called on an object that was never
  constructed: such a call leaves the state as it is.
\<close>

datatype call =
    New string
  | SetVolume ref real
  | NextEffect ref
  | PrevEffect ref
  | GenerateRuby ref
  | GenerateAndPushRuby ref
  | Delete ref

fun receiver :: "call \<Rightarrow> ref option" where
  "receiver (New nm) = None"
| "receiver (SetVolume r v) = Some r"
| "receiver (NextEffect r) = Some r"
| "receiver (PrevEffect r) = Some r"
| "receiver (GenerateRuby r) = Some r"
| "receiver (GenerateAndPushRuby r) = Some r"
| "receiver (Delete r) = Some r"

fun perform :: "env \<Rightarrow> state \<Rightarrow> call \<Rightarrow> state \<times> error option" where
  "perform e s (New nm) = (snd (LiveLoop_new e nm s), None)"
| "perform e s (SetVolume r v) = (setVolume r v s, None)"
| "perform e s (NextEffect r) = (nextEffect e r s, None)"
| "perform e s (PrevEffect r) = (prevEffect e r s, None)"
| "perform e s (GenerateRuby r) = (modify r (LiveLoop_generateRuby e) s, None)"
| "perform e s (GenerateAndPushRuby r) = (generateAndPushRuby e r s, None)"
| "perform e s (Delete r) =
     (case delete r s of Inl err \<Rightarrow> (s, Some err) | Inr s' \<Rightarrow> (s', None))"

definition invoke :: "env \<Rightarrow> state \<Rightarrow> call \<Rightarrow> state \<times> error option" where
  "invoke e s c =
     (case receiver c of
        None \<Rightarrow> perform e s c
      | Some r \<Rightarrow> (case loops s r of None \<Rightarrow> (s, None) | Some l \<Rightarrow> perform e s c))"

definition run :: "env \<Rightarrow> call list \<Rightarrow> state" where
  "run e cs = foldl (\<lambda>s c. fst (invoke e s c)) fresh cs"

text \<open>A directory with three effects, for concrete runs.\<close>

definition effectNames :: "string list" where
  "effectNames = [''reverb'', ''echo'', ''distortion'']"

definition demo :: env where
  "demo =
     \<lparr>getRubyForLiveLoop = (\<lambda>nm. ''sample :'' @ nm),
      getEffect = (\<lambda>i. \<lparr>name = (if 0 \<le> i \<and> i < 3 then effectNames ! nat i else ''undefined'')\<rparr>),
      getNumberOfEffects = 3,
      fractionToString = (\<lambda>v. if v = 3 / 10 then ''0.3'' else ''0.5'')\<rparr>"

subsection \<open>The compiled program, as the specification words it\<close>

text \<open>
  The specification describes the program text by its parts: the header and one
  declaration per active loop inside one global wrapper, then one stop block per loop
  pending removal. These definitions follow that wording; \<open>Coordinator_generateRuby\<close>
  above follows the loops of the source.
\<close>

definition declarations :: "state \<Rightarrow> string" where
  "declarations s = concat (map (\<lambda>r. js_string (getRuby s r) @ ''\<newline>'') (activeLoops s))"

definition stop_blocks :: "state \<Rightarrow> ref list \<Rightarrow> string" where
  "stop_blocks s rs = concat (map (stop_block s) rs)"

definition compiled_program :: "state \<Rightarrow> string" where
  "compiled_program s =
     global_wrap (header @ ''\<newline>'' @ declarations s) @ stop_blocks s (deadLoops s)"

text \<open>The channels held by the active loops, in the order of the set.\<close>

definition activeChannels :: "state \<Rightarrow> nat option list" where
  "activeChannels s = map (getScopeNum s) (activeLoops s)"

text \<open>The scenario of the specification: create A and B, remove A, create C.\<close>

definition scenario :: "call list" where
  "scenario = [New ''alpha'', New ''beta'', Delete 0, New ''gamma'']"

text \<open>
  The loops a call moves to the killed loops, and so the loops whose stop block the
  program compiled by that call carries; and these loops collected over a sequence of
  calls, call by call.
\<close>

fun removed_by :: "state \<Rightarrow> call \<Rightarrow> ref list" where
  "removed_by s (Delete r) = (if r \<in> set (activeLoops s) then [r] else [])"
| "removed_by s (New nm) = []"
| "removed_by s (SetVolume r v) = []"
| "removed_by s (NextEffect r) = []"
| "removed_by s (PrevEffect r) = []"
| "removed_by s (GenerateRuby r) = []"
| "removed_by s (GenerateAndPushRuby r) = []"

definition stopped :: "env \<Rightarrow> call list \<Rightarrow> ref list" where
  "stopped e cs = concat (map (\<lambda>i. removed_by (run e (take i cs)) (cs ! i)) [0..<length cs])"

subsection \<open>Invariants of the registry\<close>

text \<open>
  What holds of the coordinator's sets and of the store between two calls: the active
  set has no member twice, the set of killed loops is empty again, every member of
  the active set is a constructed object, and the constructed objects are those with
  an address below the counter.
\<close>

definition registry_ok :: "state \<Rightarrow> bool" where
  "registry_ok s \<longleftrightarrow>
     distinct (activeLoops s) \<and> deadLoops s = [] \<and>
     list_all (\<lambda>r. r < idCount s) (activeLoops s) \<and>
     (\<forall>r. (loops s r = None) = (idCount s \<le> r))"

text \<open>
  The channels that are numbers, held by active loops or free, are the channels 2 to
  127, each once.
\<close>

definition channels_ok :: "state \<Rightarrow> bool" where
  "channels_ok s \<longleftrightarrow>
     mset (filter (\<lambda>c. c \<noteq> None) (activeChannels s @ freeScopeNums s)) = mset (map Some [2..<128])"

text \<open>
  The declaration of one loop, as the specification draws it: the body inside the
  effect wrapper, inside the volume wrapper, inside the telemetry wrapper of the
  loop's channel, inside the declaration under the loop's tag.
\<close>

definition declaration_block :: "string \<Rightarrow> string \<Rightarrow> string \<Rightarrow> string \<Rightarrow> string \<Rightarrow> string" where
  \<open>declaration_block tg channel amp fx body =
     ''live_loop :'' @ tg @ '' do\<newline>'' @
       ''with_fx "sonic-pi-fx_scope_out", scope_num: '' @ channel @ '' do\<newline>'' @
         ''with_fx :level, amp: '' @ amp @ '' do\<newline>'' @
           ''with_fx :'' @ fx @ '' do\<newline>'' @
             body @
           ''\<newline>end\<newline>'' @
         ''\<newline>end\<newline>'' @
       ''\<newline>end\<newline>'' @
     ''\<newline>end''\<close>

text \<open>
  The fields of every constructed loop: its number is its address, \<^verbatim>\<open>rawRuby\<close> is
  still \<^verbatim>\<open>undefined\<close>, its volume is within 0 and 1, its tag is made of its number
  and a name, and its fragment is the declaration of its tag, its channel, its effect
  and the volume it had when the fragment was last compiled.
\<close>

definition loop_ok :: "env \<Rightarrow> ref \<Rightarrow> liveloop \<Rightarrow> bool" where
  "loop_ok e r l \<longleftrightarrow>
     loopId l = r \<and> rawRuby l = None \<and> 0 \<le> volume l \<and> volume l \<le> 1 \<and>
     (\<exists>nm. tag l = ''loop_'' @ showNat r @ ''_'' @ nm) \<and>
     (\<exists>v. 0 \<le> v \<and> v \<le> 1 \<and>
        outputRuby l = Some (declaration_block (tag l) (js_number (scopeNum l))
                               (numberToString e v) (name (effectData l)) ''undefined''))"

section \<open>Properties\<close>

subsection \<open>What each operation does to each field\<close>


lemma pushScopes_eq: "pushScopes i acc = acc @ map Some [i..<128]"
proof (induction i acc rule: pushScopes.induct)
  case (1 i acc)
  show ?case
  proof (cases "i < 128")
    case True
    then have "pushScopes i acc = pushScopes (i + 1) (acc @ [Some i])"
      by (subst pushScopes.simps) simp
    also have "\<dots> = (acc @ [Some i]) @ map Some [i + 1..<128]"
      using 1 True by simp
    also have "\<dots> = acc @ map Some [i..<128]"
      using True by (simp add: upt_conv_Cons)
    finally show ?thesis .
  next
    case False
    then show ?thesis by (subst pushScopes.simps) simp
  qed
qed

lemma fresh_simps [simp]:
  "freeScopeNums fresh = map Some [2..<128]"
  "activeLoops fresh = []"
  "deadLoops fresh = []"
  "coordOutputRuby fresh = None"
  "runCode fresh = []"
  "idCount fresh = 0"
  "loops fresh = (\<lambda>r. None)"
  by (simp_all add: fresh_def pushScopes_eq)

lemma foldl_append_concat: "foldl (\<lambda>out r. out @ f r) a rs = a @ concat (map f rs)"
  by (induction rs arbitrary: a) simp_all

lemma Coordinator_generateRuby_eq:
  "Coordinator_generateRuby s =
     s\<lparr>coordOutputRuby := Some (compiled_program s), deadLoops := [],
       runCode := runCode s @ [compiled_program s]\<rparr>"
  by (cases "deadLoops s")
     (simp_all add: Coordinator_generateRuby_def compiled_program_def declarations_def
        stop_blocks_def foldl_append_concat Let_def)

lemma generate_simps [simp]:
  "freeScopeNums (Coordinator_generateRuby s) = freeScopeNums s"
  "activeLoops (Coordinator_generateRuby s) = activeLoops s"
  "deadLoops (Coordinator_generateRuby s) = []"
  "coordOutputRuby (Coordinator_generateRuby s) = Some (compiled_program s)"
  "runCode (Coordinator_generateRuby s) = runCode s @ [compiled_program s]"
  "idCount (Coordinator_generateRuby s) = idCount s"
  "loops (Coordinator_generateRuby s) = loops s"
  by (simp_all add: Coordinator_generateRuby_eq)

lemma modify_simps [simp]:
  "freeScopeNums (modify r f s) = freeScopeNums s"
  "activeLoops (modify r f s) = activeLoops s"
  "deadLoops (modify r f s) = deadLoops s"
  "coordOutputRuby (modify r f s) = coordOutputRuby s"
  "runCode (modify r f s) = runCode s"
  "idCount (modify r f s) = idCount s"
  by (simp_all add: modify_def split: option.splits)

lemma loops_modify:
  "loops (modify r f s) r' = (if r' = r then map_option f (loops s r) else loops s r')"
  by (simp add: modify_def split: option.splits)

lemma getFreeScope_simps [simp]:
  "activeLoops (snd (getFreeScope s)) = activeLoops s"
  "deadLoops (snd (getFreeScope s)) = deadLoops s"
  "coordOutputRuby (snd (getFreeScope s)) = coordOutputRuby s"
  "runCode (snd (getFreeScope s)) = runCode s"
  "idCount (snd (getFreeScope s)) = idCount s"
  "loops (snd (getFreeScope s)) = loops s"
  "freeScopeNums (snd (getFreeScope s)) = tl (freeScopeNums s)"
  "fst (getFreeScope s) = (case freeScopeNums s of [] \<Rightarrow> None | x # xs \<Rightarrow> x)"
  by (simp_all add: getFreeScope_def split: list.splits)

text \<open>The object the constructor builds.\<close>

lemma new_simps:
  "fst (LiveLoop_new e nm s) = idCount s"
  "freeScopeNums (snd (LiveLoop_new e nm s)) = tl (freeScopeNums s)"
  "activeLoops (snd (LiveLoop_new e nm s)) = set_add (idCount s) (activeLoops s)"
  "deadLoops (snd (LiveLoop_new e nm s)) = []"
  "idCount (snd (LiveLoop_new e nm s)) = idCount s + 1"
  "loops (snd (LiveLoop_new e nm s)) =
     (loops s)(idCount s \<mapsto> LiveLoop_generateRuby e
        \<lparr>rawRuby = None, volume = 1, outputRuby = None, loopId = idCount s,
         tag = ''loop_'' @ showNat (idCount s) @ ''_'' @ nm,
         effectNum = 0, effectData = getEffect e 0,
         scopeNum = fst (getFreeScope s)\<rparr>)"
  by (simp_all add: LiveLoop_new_def addLoopToSet_def Let_def split_beta)

subsection \<open>Runs\<close>

lemma run_Nil [simp]: "run e [] = fresh"
  by (simp add: run_def)

lemma run_snoc [simp]: "run e (cs @ [c]) = fst (invoke e (run e cs) c)"
  by (simp add: run_def)

lemma run_induct [consumes 0, case_names fresh invoke]:
  assumes "P fresh" and "\<And>s c. P s \<Longrightarrow> P (fst (invoke e s c))"
  shows "P (run e cs)"
  using assms by (induction cs rule: rev_induct) simp_all

lemma generateRuby_keeps [simp]:
  "rawRuby (LiveLoop_generateRuby e l) = rawRuby l"
  "volume (LiveLoop_generateRuby e l) = volume l"
  "loopId (LiveLoop_generateRuby e l) = loopId l"
  "tag (LiveLoop_generateRuby e l) = tag l"
  "effectNum (LiveLoop_generateRuby e l) = effectNum l"
  "effectData (LiveLoop_generateRuby e l) = effectData l"
  "scopeNum (LiveLoop_generateRuby e l) = scopeNum l"
  by (simp_all add: LiveLoop_generateRuby_def Let_def)

lemma setVolume_simps [simp]:
  "freeScopeNums (setVolume r v s) = freeScopeNums s"
  "activeLoops (setVolume r v s) = activeLoops s"
  "deadLoops (setVolume r v s) = deadLoops s"
  "coordOutputRuby (setVolume r v s) = coordOutputRuby s"
  "runCode (setVolume r v s) = runCode s"
  "idCount (setVolume r v s) = idCount s"
  by (simp_all add: setVolume_def)

lemma loops_setVolume:
  "loops (setVolume r v s) r' =
     (if r' = r
      then map_option (\<lambda>l. l\<lparr>volume := (if v < 0 then 0 else if v > 1 then 1 else v)\<rparr>) (loops s r)
      else loops s r')"
  by (simp add: setVolume_def loops_modify)

lemma generateAndPushRuby_simps [simp]:
  "freeScopeNums (generateAndPushRuby e r s) = freeScopeNums s"
  "activeLoops (generateAndPushRuby e r s) = activeLoops s"
  "deadLoops (generateAndPushRuby e r s) = []"
  "idCount (generateAndPushRuby e r s) = idCount s"
  "loops (generateAndPushRuby e r s) = loops (modify r (LiveLoop_generateRuby e) s)"
  by (simp_all add: generateAndPushRuby_def)

lemma nextEffect_simps [simp]:
  "freeScopeNums (nextEffect e r s) = freeScopeNums s"
  "activeLoops (nextEffect e r s) = activeLoops s"
  "deadLoops (nextEffect e r s) = []"
  "idCount (nextEffect e r s) = idCount s"
  by (simp_all add: nextEffect_def Let_def)

lemma prevEffect_simps [simp]:
  "freeScopeNums (prevEffect e r s) = freeScopeNums s"
  "activeLoops (prevEffect e r s) = activeLoops s"
  "deadLoops (prevEffect e r s) = []"
  "idCount (prevEffect e r s) = idCount s"
  by (simp_all add: prevEffect_def Let_def)

lemma loops_nextEffect:
  "loops (nextEffect e r s) r' =
     (if r' = r
      then map_option (\<lambda>l. LiveLoop_generateRuby e
             (l\<lparr>effectNum := js_rem (effectNum l + 1) (getNumberOfEffects e),
                effectData := getEffect e (js_rem (effectNum l + 1) (getNumberOfEffects e))\<rparr>))
             (loops s r)
      else loops s r')"
  by (cases "loops s r") (simp_all add: nextEffect_def Let_def loops_modify)

lemma loops_prevEffect:
  "loops (prevEffect e r s) r' =
     (if r' = r
      then map_option (\<lambda>l. LiveLoop_generateRuby e
             (l\<lparr>effectNum := js_rem (effectNum l - 1) (getNumberOfEffects e),
                effectData := getEffect e (js_rem (effectNum l - 1) (getNumberOfEffects e))\<rparr>))
             (loops s r)
      else loops s r')"
  by (cases "loops s r") (simp_all add: prevEffect_def Let_def loops_modify)

lemma removeLoopFromSet_active:
  "r \<in> set (activeLoops s) \<Longrightarrow>
   removeLoopFromSet r s =
     Inr (Coordinator_generateRuby
           (s\<lparr>activeLoops := removeAll r (activeLoops s),
              deadLoops := set_add r (deadLoops s),
              freeScopeNums := freeScopeNums s @ [getScopeNum s r]\<rparr>))"
  by (simp add: removeLoopFromSet_def set_delete_def)

lemma removeLoopFromSet_absent:
  "r \<notin> set (activeLoops s) \<Longrightarrow>
   removeLoopFromSet r s = Inl (Error (''Loop tag '' @ getTag s r @ '' not present.''))"
  by (simp add: removeLoopFromSet_def)

text \<open>The fragment a compilation stores, and what the setters keep of a loop.\<close>

lemma outputRuby_generateRuby:
  "outputRuby (LiveLoop_generateRuby e l) =
     Some (declaration_block (tag l) (js_number (scopeNum l)) (numberToString e (volume l))
             (name (effectData l)) (js_string (rawRuby l)))"
  by (simp add: LiveLoop_generateRuby_def declaration_block_def Let_def)

lemma loop_ok_generateRuby:
  assumes "loop_ok e r l"
  shows "loop_ok e r (LiveLoop_generateRuby e l)"
proof -
  have "outputRuby (LiveLoop_generateRuby e l) =
      Some (declaration_block (tag l) (js_number (scopeNum l)) (numberToString e (volume l))
              (name (effectData l)) ''undefined'')"
    using assms by (simp add: outputRuby_generateRuby loop_ok_def js_string_def)
  then show ?thesis
    using assms unfolding loop_ok_def generateRuby_keeps by blast
qed

lemma loop_ok_effect:
  assumes "loop_ok e r l"
  shows "loop_ok e r (LiveLoop_generateRuby e (l\<lparr>effectNum := k, effectData := d\<rparr>))"
proof -
  have "outputRuby (LiveLoop_generateRuby e (l\<lparr>effectNum := k, effectData := d\<rparr>)) =
      Some (declaration_block (tag l) (js_number (scopeNum l)) (numberToString e (volume l))
              (name d) ''undefined'')"
    using assms by (simp add: outputRuby_generateRuby loop_ok_def js_string_def)
  then show ?thesis
    using assms unfolding loop_ok_def generateRuby_keeps by (simp del: ex_simps) blast
qed

lemma loop_ok_volume:
  assumes "loop_ok e r l" and "0 \<le> v" and "v \<le> 1"
  shows "loop_ok e r (l\<lparr>volume := v\<rparr>)"
  using assms by (simp add: loop_ok_def)

text \<open>What each call does to the coordinator's fields and to the store's domain.\<close>

lemma invoke_cases:
  obtains
    (New) nm where "c = New nm" "fst (invoke e s c) = snd (LiveLoop_new e nm s)"
  | (Remove) r where "c = Delete r" "r \<in> set (activeLoops s)" "loops s r \<noteq> None"
      "fst (invoke e s c) = Coordinator_generateRuby
           (s\<lparr>activeLoops := removeAll r (activeLoops s),
              deadLoops := set_add r (deadLoops s),
              freeScopeNums := freeScopeNums s @ [getScopeNum s r]\<rparr>)"
  | (Same) "fst (invoke e s c) = s"
  | (Field) r f where "receiver c = Some r" "loops s r \<noteq> None"
      "freeScopeNums (fst (invoke e s c)) = freeScopeNums s"
      "activeLoops (fst (invoke e s c)) = activeLoops s"
      "deadLoops (fst (invoke e s c)) = deadLoops s \<or> deadLoops (fst (invoke e s c)) = []"
      "idCount (fst (invoke e s c)) = idCount s"
      "\<And>r'. loops (fst (invoke e s c)) r' = (if r' = r then map_option f (loops s r) else loops s r')"
      "\<And>l. scopeNum (f l) = scopeNum l" "\<And>l. tag (f l) = tag l" "\<And>l. rawRuby (f l) = rawRuby l"
      "\<And>l. loopId (f l) = loopId l" "\<And>r' l. loop_ok e r' l \<Longrightarrow> loop_ok e r' (f l)"
proof (cases c)
  case (New nm)
  then show ?thesis using that(1) by (simp add: invoke_def)
next
  case (SetVolume r v)
  show ?thesis
  proof (cases "loops s r")
    case None
    then show ?thesis using SetVolume that(3) by (simp add: invoke_def)
  next
    case (Some l)
    then show ?thesis using SetVolume
      by (intro that(4) [of r "\<lambda>l. l\<lparr>volume := (if v < 0 then 0 else if v > 1 then 1 else v)\<rparr>"])
         (simp_all add: invoke_def loops_setVolume loop_ok_volume)
  qed
next
  case (NextEffect r)
  show ?thesis
  proof (cases "loops s r")
    case None
    then show ?thesis using NextEffect that(3) by (simp add: invoke_def)
  next
    case (Some l)
    then show ?thesis using NextEffect
      by (intro that(4) [of r "\<lambda>l. LiveLoop_generateRuby e
             (l\<lparr>effectNum := js_rem (effectNum l + 1) (getNumberOfEffects e),
                effectData := getEffect e (js_rem (effectNum l + 1) (getNumberOfEffects e))\<rparr>)"])
         (simp_all add: invoke_def loops_nextEffect loop_ok_effect)
  qed
next
  case (PrevEffect r)
  show ?thesis
  proof (cases "loops s r")
    case None
    then show ?thesis using PrevEffect that(3) by (simp add: invoke_def)
  next
    case (Some l)
    then show ?thesis using PrevEffect
      by (intro that(4) [of r "\<lambda>l. LiveLoop_generateRuby e
             (l\<lparr>effectNum := js_rem (effectNum l - 1) (getNumberOfEffects e),
                effectData := getEffect e (js_rem (effectNum l - 1) (getNumberOfEffects e))\<rparr>)"])
         (simp_all add: invoke_def loops_prevEffect loop_ok_effect)
  qed
next
  case (GenerateRuby r)
  show ?thesis
  proof (cases "loops s r")
    case None
    then show ?thesis using GenerateRuby that(3) by (simp add: invoke_def)
  next
    case (Some l)
    then show ?thesis using GenerateRuby
      by (intro that(4) [of r "LiveLoop_generateRuby e"])
         (simp_all add: invoke_def loops_modify loop_ok_generateRuby)
  qed
next
  case (GenerateAndPushRuby r)
  show ?thesis
  proof (cases "loops s r")
    case None
    then show ?thesis using GenerateAndPushRuby that(3) by (simp add: invoke_def)
  next
    case (Some l)
    then show ?thesis using GenerateAndPushRuby
      by (intro that(4) [of r "LiveLoop_generateRuby e"])
         (simp_all add: invoke_def loops_modify loop_ok_generateRuby)
  qed
next
  case (Delete r)
  show ?thesis
  proof (cases "loops s r \<noteq> None \<and> r \<in> set (activeLoops s)")
    case True
    then show ?thesis using Delete that(2) [of r]
      by (auto simp: invoke_def delete_def removeLoopFromSet_active)
  next
    case False
    then show ?thesis using Delete that(3)
      by (auto simp: invoke_def delete_def removeLoopFromSet_absent split: option.splits)
  qed
qed

subsection \<open>The registry invariant\<close>

lemma set_add_fresh: "r \<notin> set rs \<Longrightarrow> set_add r rs = rs @ [r]"
  by (simp add: set_add_def)

lemma registry_ok_fresh: "registry_ok fresh"
  by (simp add: registry_ok_def)

lemma registry_ok_new:
  assumes "registry_ok s"
  shows "activeLoops (snd (LiveLoop_new e nm s)) = activeLoops s @ [idCount s]"
proof -
  have "idCount s \<notin> set (activeLoops s)"
    using assms by (auto simp: registry_ok_def list_all_iff)
  then show ?thesis by (simp add: new_simps set_add_fresh)
qed

lemma registry_ok_invoke:
  assumes "registry_ok s"
  shows "registry_ok (fst (invoke e s c))"
proof (cases c e s rule: invoke_cases)
  case (New nm)
  have "registry_ok (snd (LiveLoop_new e nm s))"
    using assms registry_ok_new [OF assms, of e nm]
    by (auto simp: registry_ok_def new_simps list_all_iff)
  then show ?thesis using New by simp
next
  case (Remove r)
  then show ?thesis using assms
    by (auto simp: registry_ok_def list_all_iff distinct_removeAll)
next
  case Same
  then show ?thesis using assms by simp
next
  case (Field r f)
  then show ?thesis using assms
    by (auto simp: registry_ok_def list_all_iff)
qed

lemma registry_ok_run: "registry_ok (run e cs)"
  by (induction rule: run_induct) (simp_all add: registry_ok_fresh registry_ok_invoke)

subsection \<open>Invariants of every run\<close>

lemma refs_allocated:
  "r \<in> set (activeLoops (run e cs)) \<Longrightarrow> loops (run e cs) r \<noteq> None"
  using registry_ok_run [of e cs] by (auto simp: registry_ok_def list_all_iff)

lemma loop_ok_new:
  "loop_ok e (idCount s)
     (LiveLoop_generateRuby e
        \<lparr>rawRuby = None, volume = 1, outputRuby = None, loopId = idCount s,
         tag = ''loop_'' @ showNat (idCount s) @ ''_'' @ nm,
         effectNum = 0, effectData = getEffect e 0, scopeNum = c\<rparr>)"
  unfolding loop_ok_def outputRuby_generateRuby generateRuby_keeps
  by (intro conjI exI [of _ nm] exI [of _ 1]) (simp_all add: js_string_def)

lemma loop_ok_invoke:
  assumes "\<forall>r l. loops s r = Some l \<longrightarrow> loop_ok e r l"
  shows "\<forall>r l. loops (fst (invoke e s c)) r = Some l \<longrightarrow> loop_ok e r l"
proof (cases c e s rule: invoke_cases)
  case (New nm)
  then show ?thesis
    using assms loop_ok_new [where e = e and s = s and nm = nm] by (auto simp: new_simps)
next
  case (Remove r)
  then show ?thesis using assms by simp
next
  case Same
  then show ?thesis using assms by simp
next
  case (Field r f)
  then show ?thesis using assms by auto
qed

lemma loop_ok_run: "loops (run e cs) r = Some l \<Longrightarrow> loop_ok e r l"
proof -
  have "\<forall>r l. loops (run e cs) r = Some l \<longrightarrow> loop_ok e r l"
    by (induction rule: run_induct) (simp_all add: loop_ok_invoke)
  then show "loops (run e cs) r = Some l \<Longrightarrow> loop_ok e r l" by blast
qed

text \<open>No run assigns \<^verbatim>\<open>rawRuby\<close>, and the volume stays within 0 and 1.\<close>

lemma rawRuby_never_assigned: "loops (run e cs) r = Some l \<Longrightarrow> rawRuby l = None"
  using loop_ok_run [of e cs r l] by (simp add: loop_ok_def)

lemma volume_in_range: "loops (run e cs) r = Some l \<Longrightarrow> 0 \<le> volume l \<and> volume l \<le> 1"
  using loop_ok_run [of e cs r l] by (simp add: loop_ok_def)

subsection \<open>Construction and volume\<close>


lemma showNat_digit: "n < 10 \<Longrightarrow> showNat n = [''0123456789'' ! n]"
  by (subst showNat.simps) simp

lemma numberToString_one: "numberToString e 1 = ''1''"
  by (simp add: numberToString_def showInt_def showNat_digit)

lemma numberToString_zero: "numberToString e 0 = ''0''"
  by (simp add: numberToString_def showInt_def showNat_digit)

lemma getRuby_new:
  \<open>getRuby (snd (LiveLoop_new e nm s)) (idCount s) =
     Some (''live_loop :loop_'' @ showNat (idCount s) @ ''_'' @ nm @ '' do\<newline>''
       @ ''with_fx "sonic-pi-fx_scope_out", scope_num: '' @ js_number (fst (getFreeScope s)) @ '' do\<newline>''
       @ ''with_fx :level, amp: 1 do\<newline>''
       @ ''with_fx :'' @ name (getEffect e 0) @ '' do\<newline>''
       @ ''undefined''
       @ ''\<newline>end\<newline>'' @ ''\<newline>end\<newline>'' @ ''\<newline>end\<newline>'' @ ''\<newline>end'')\<close>
  by (simp add: getRuby_def new_simps LiveLoop_generateRuby_def Let_def js_string_def
        numberToString_one)

lemma compiled_program_cong:
  "activeLoops s = activeLoops t \<Longrightarrow> deadLoops s = deadLoops t \<Longrightarrow> loops s = loops t \<Longrightarrow>
   compiled_program s = compiled_program t"
proof -
  assume eq: "activeLoops s = activeLoops t" "deadLoops s = deadLoops t" "loops s = loops t"
  have "getRuby s = getRuby t" "stop_block s = stop_block t"
    using eq by (auto simp: fun_eq_iff getRuby_def stop_block_def getTag_def)
  then show ?thesis
    using eq by (simp add: compiled_program_def declarations_def stop_blocks_def)
qed

lemma runCode_new:
  "runCode (snd (LiveLoop_new e nm s)) =
     runCode s @ [compiled_program ((snd (LiveLoop_new e nm s))\<lparr>deadLoops := deadLoops s\<rparr>)]"
proof -
  have "\<exists>t. snd (LiveLoop_new e nm s) = Coordinator_generateRuby t \<and> runCode t = runCode s
          \<and> deadLoops t = deadLoops s"
    unfolding LiveLoop_new_def addLoopToSet_def Let_def split_beta snd_conv
    by (rule exI, intro conjI, rule refl) simp_all
  then obtain t where t: "snd (LiveLoop_new e nm s) = Coordinator_generateRuby t"
    "runCode t = runCode s" "deadLoops t = deadLoops s"
    by blast
  have "compiled_program t = compiled_program ((Coordinator_generateRuby t)\<lparr>deadLoops := deadLoops s\<rparr>)"
    by (rule compiled_program_cong) (simp_all add: t)
  then show ?thesis by (simp add: t)
qed

text \<open>
  Claim C10. A loop that has just been constructed has volume 1, effect index 0 and
  the directory's effect at index 0, and the fragment compiled by its constructor
  carries \<^verbatim>\<open>amp: 1\<close> and the name of that effect.
\<close>

theorem new_loop_defaults:
  \<open>map_option volume (loops (snd (LiveLoop_new e nm s)) (fst (LiveLoop_new e nm s))) = Some 1
   \<and> map_option effectNum (loops (snd (LiveLoop_new e nm s)) (fst (LiveLoop_new e nm s))) = Some 0
   \<and> map_option effectData (loops (snd (LiveLoop_new e nm s)) (fst (LiveLoop_new e nm s)))
       = Some (getEffect e 0)
   \<and> getRuby (snd (LiveLoop_new e nm s)) (fst (LiveLoop_new e nm s)) =
     Some (''live_loop :loop_'' @ showNat (idCount s) @ ''_'' @ nm @ '' do\<newline>''
       @ ''with_fx "sonic-pi-fx_scope_out", scope_num: '' @ js_number (fst (getFreeScope s)) @ '' do\<newline>''
       @ ''with_fx :level, amp: 1 do\<newline>''
       @ ''with_fx :'' @ name (getEffect e 0) @ '' do\<newline>''
       @ ''undefined''
       @ ''\<newline>end\<newline>'' @ ''\<newline>end\<newline>'' @ ''\<newline>end\<newline>'' @ ''\<newline>end'')\<close>
  using getRuby_new [of e nm s] by (simp add: new_simps)

lemma run_one: "run e [c] = fst (invoke e fresh c)"
  by (simp add: run_def)

lemma run_two: "run e [a, b] = fst (invoke e (run e [a]) b)"
  using run_snoc [of e "[a]" b] by simp

lemma invoke_New [simp]: "invoke e s (New nm) = (snd (LiveLoop_new e nm s), None)"
  by (simp add: invoke_def)

lemma invoke_live:
  "receiver c = Some r \<Longrightarrow> loops s r \<noteq> None \<Longrightarrow> invoke e s c = perform e s c"
  by (auto simp: invoke_def)

lemma run_New_loops0: "loops (run e [New nm]) 0 \<noteq> None"
  by (simp add: run_one new_simps)

lemma setVolume_clamps:
  "loops s r = Some l \<Longrightarrow>
   map_option volume (loops (setVolume r v s) r) = Some (if v < 0 then 0 else if v > 1 then 1 else v)"
  by (simp add: loops_setVolume)

text \<open>
  Claim C7, at the input \<^verbatim>\<open>new LiveLoop('alpha'); setVolume(0.3)\<close>. The volume
  field becomes 0.3, as the clamp says. No program is compiled or handed to
  \<^verbatim>\<open>runCode\<close>: the texts sent are the one text the constructor sent, the
  coordinator's program is the one it had, and the loop's fragment is still the one
  compiled with volume 1.
\<close>

theorem setVolume_without_republish:
  "map_option volume (loops (run demo [New ''alpha'', SetVolume 0 (3 / 10)]) 0) = Some (3 / 10)
   \<and> runCode (run demo [New ''alpha'', SetVolume 0 (3 / 10)]) = runCode (run demo [New ''alpha''])
   \<and> coordOutputRuby (run demo [New ''alpha'', SetVolume 0 (3 / 10)])
       = coordOutputRuby (run demo [New ''alpha''])
   \<and> getRuby (run demo [New ''alpha'', SetVolume 0 (3 / 10)]) 0 = getRuby (run demo [New ''alpha'']) 0
   \<and> length (runCode (run demo [New ''alpha''])) = 1"
proof -
  have live: "loops (run demo [New ''alpha'']) 0 \<noteq> None"
    by (rule run_New_loops0)
  have step: "run demo [New ''alpha'', SetVolume 0 (3 / 10)]
      = setVolume 0 (3 / 10) (run demo [New ''alpha''])"
    using live by (simp add: run_two invoke_live)
  have vol: "map_option volume (loops (run demo [New ''alpha'']) 0) = Some 1"
    by (simp add: run_one new_simps)
  show ?thesis
    using live vol by (auto simp: step loops_setVolume getRuby_def run_one runCode_new)
qed

subsection \<open>Effect index and compiled fragment\<close>


lemma invoke_simps:
  "loops s r \<noteq> None \<Longrightarrow> invoke e s (SetVolume r v) = (setVolume r v s, None)"
  "loops s r \<noteq> None \<Longrightarrow> invoke e s (NextEffect r) = (nextEffect e r s, None)"
  "loops s r \<noteq> None \<Longrightarrow> invoke e s (PrevEffect r) = (prevEffect e r s, None)"
  "loops s r \<noteq> None \<Longrightarrow> invoke e s (GenerateRuby r) = (modify r (LiveLoop_generateRuby e) s, None)"
  "loops s r \<noteq> None \<Longrightarrow> invoke e s (GenerateAndPushRuby r) = (generateAndPushRuby e r s, None)"
  "loops s r \<noteq> None \<Longrightarrow> invoke e s (Delete r) =
     (case removeLoopFromSet r s of Inl err \<Rightarrow> (s, Some err) | Inr s' \<Rightarrow> (s', None))"
  by (simp_all add: invoke_live delete_def)

lemma demo_simps [simp]:
  "getRubyForLiveLoop demo nm = ''sample :'' @ nm"
  "getNumberOfEffects demo = 3"
  "name (getEffect demo 0) = ''reverb''"
  by (simp_all add: demo_def effectNames_def)

lemma upt_2_128: "[2..<128] = 2 # 3 # 4 # [5..<128]"
  by (simp add: upt_conv_Cons)

lemma fresh_loop0:
  "loops (snd (LiveLoop_new e nm fresh)) 0 =
     Some (LiveLoop_generateRuby e
        \<lparr>rawRuby = None, volume = 1, outputRuby = None, loopId = 0,
         tag = ''loop_0_'' @ nm, effectNum = 0, effectData = getEffect e 0, scopeNum = Some 2\<rparr>)"
  by (simp add: new_simps upt_2_128 showNat_digit)

text \<open>
  Claim C6, with a directory of three effects. \<^verbatim>\<open>prevEffect()\<close> on a new loop
  (index 0) leaves the index \<open>-1\<close>: \<^verbatim>\<open>(0 - 1) % 3\<close> is \<open>-1\<close> in JavaScript, not
  the floor-modulo result 2. And from the valid index 2, \<^verbatim>\<open>nextEffect()\<close> gives 0 and
  \<^verbatim>\<open>prevEffect()\<close> then gives \<open>-1\<close>, not 2 again.
\<close>

theorem prevEffect_negative_index:
  "map_option effectNum (loops (run demo [New ''alpha'', PrevEffect 0]) 0) = Some (- 1)
   \<and> map_option effectNum (loops (run demo [New ''alpha'', NextEffect 0, NextEffect 0]) 0) = Some 2
   \<and> map_option effectNum
        (loops (run demo [New ''alpha'', NextEffect 0, NextEffect 0, NextEffect 0, PrevEffect 0]) 0)
       = Some (- 1)"
  by (simp add: run_def invoke_simps fresh_loop0 loops_nextEffect loops_prevEffect js_rem_def)

text \<open>
  Claim C4, at the input \<^verbatim>\<open>new LiveLoop('alpha')\<close> on a fresh coordinator, with a
  directory whose body for \<^verbatim>\<open>alpha\<close> is \<^verbatim>\<open>sample :alpha\<close>. The wrappers nest in
  the order the claim gives, but the innermost text is \<^verbatim>\<open>undefined\<close>: the body the
  constructor looked up is not in the fragment.
\<close>

theorem compiled_fragment_has_no_body:
  \<open>getRubyForLiveLoop demo ''alpha'' = ''sample :alpha''
   \<and> getRuby (run demo [New ''alpha'']) 0 =
     Some (''live_loop :loop_0_alpha do\<newline>'' @
           ''with_fx "sonic-pi-fx_scope_out", scope_num: 2 do\<newline>'' @
           ''with_fx :level, amp: 1 do\<newline>'' @
           ''with_fx :reverb do\<newline>'' @
           ''undefined'' @
           ''\<newline>end\<newline>'' @ ''\<newline>end\<newline>'' @ ''\<newline>end\<newline>'' @ ''\<newline>end'')\<close>
  using getRuby_new [of demo "''alpha''" fresh]
  by (simp add: run_def upt_2_128 showNat_digit js_number_def)

subsection \<open>Nesting of the fragment and the remainder operator\<close>


text \<open>The fragment is a function of the loop's fields, and compiling twice changes nothing.\<close>

lemma LiveLoop_generateRuby_nesting:
  \<open>outputRuby (LiveLoop_generateRuby e l) =
     Some (''live_loop :'' @ tag l @ '' do\<newline>'' @
            (''with_fx "sonic-pi-fx_scope_out", scope_num: '' @ js_number (scopeNum l) @ '' do\<newline>'' @
              (''with_fx :level, amp: '' @ numberToString e (volume l) @ '' do\<newline>'' @
                (''with_fx :'' @ name (effectData l) @ '' do\<newline>'' @
                  js_string (rawRuby l)
                 @ ''\<newline>end\<newline>'')
               @ ''\<newline>end\<newline>'')
             @ ''\<newline>end\<newline>'')
           @ ''\<newline>end'')\<close>
  by (simp add: LiveLoop_generateRuby_def Let_def)

lemma LiveLoop_generateRuby_idem:
  "LiveLoop_generateRuby e (LiveLoop_generateRuby e l) = LiveLoop_generateRuby e l"
  by (simp add: LiveLoop_generateRuby_def Let_def)

lemma js_rem_next_in_range:
  "0 \<le> i \<Longrightarrow> i < n \<Longrightarrow> 0 \<le> js_rem (i + 1) n \<and> js_rem (i + 1) n < n \<and> js_rem (i + 1) n = (i + 1) mod n"
  by (auto simp: js_rem_def sgn_if abs_if)

lemma js_rem_prev_zero: "2 \<le> n \<Longrightarrow> js_rem (0 - 1) n = - 1"
  by (simp add: js_rem_def abs_if)

lemma js_rem_prev_then_next:
  assumes "0 \<le> i" and "i < n"
  shows "js_rem (js_rem (i - 1) n + 1) n = i"
proof (cases "i = 0")
  case True
  show ?thesis
  proof (cases "n = 1")
    case True
    then show ?thesis using \<open>i = 0\<close> by (simp add: js_rem_def)
  next
    case False
    then have "2 \<le> n" using assms True by simp
    then have "js_rem (i - 1) n = - 1"
      using True by (simp add: js_rem_def)
    then show ?thesis using True by (simp add: js_rem_def)
  qed
next
  case False
  then have "0 < i" using assms by simp
  then have "js_rem (i - 1) n = i - 1"
    using assms by (simp add: js_rem_def sgn_if abs_if)
  then show ?thesis
    using assms \<open>0 < i\<close> by (simp add: js_rem_def sgn_if abs_if)
qed

subsection \<open>Removal\<close>

lemma perform_Delete:
  "perform e s (Delete r) =
     (case removeLoopFromSet r s of Inl err \<Rightarrow> (s, Some err) | Inr s' \<Rightarrow> (s', None))"
  by (simp add: delete_def)

lemma getTag_generate [simp]: "getTag (Coordinator_generateRuby s) = getTag s"
  by (simp add: fun_eq_iff getTag_def)

lemma getTag_upd [simp]:
  "getTag (s\<lparr>activeLoops := a\<rparr>) = getTag s"
  "getTag (s\<lparr>deadLoops := d\<rparr>) = getTag s"
  "getTag (s\<lparr>freeScopeNums := p\<rparr>) = getTag s"
  by (simp_all add: fun_eq_iff getTag_def)

lemma getRuby_upd [simp]:
  "getRuby (s\<lparr>activeLoops := a\<rparr>) = getRuby s"
  "getRuby (s\<lparr>deadLoops := d\<rparr>) = getRuby s"
  "getRuby (s\<lparr>freeScopeNums := p\<rparr>) = getRuby s"
  "getRuby (Coordinator_generateRuby s) = getRuby s"
  by (simp_all add: fun_eq_iff getRuby_def)

lemma stop_block_cong: "getTag s = getTag t \<Longrightarrow> stop_block s = stop_block t"
  by (simp add: fun_eq_iff stop_block_def)

lemma declarations_cong:
  "getRuby s = getRuby t \<Longrightarrow> activeLoops s = activeLoops t \<Longrightarrow> declarations s = declarations t"
  by (simp add: declarations_def)

text \<open>
  Claim C8. Removing a loop that is not in the active set raises the error the source
  throws (\<^verbatim>\<open>Loop tag ... not present.\<close>) and the state stays as it was. Removing
  an active loop succeeds: the loop leaves the active set and joins the killed loops,
  its channel is appended to the free list, and the program compiled at once carries
  the stop blocks of the killed loops; a second removal of the same loop raises the
  error and changes nothing.
\<close>

theorem removeLoop_twice:
  "(r \<notin> set (activeLoops s) \<longrightarrow>
      removeLoopFromSet r s = Inl (Error (''Loop tag '' @ getTag s r @ '' not present.''))
      \<and> perform e s (Delete r) = (s, Some (Error (''Loop tag '' @ getTag s r @ '' not present.''))))
   \<and> (r \<in> set (activeLoops s) \<longrightarrow>
      (\<exists>s'. removeLoopFromSet r s = Inr s' \<and> perform e s (Delete r) = (s', None)
         \<and> s' = Coordinator_generateRuby
                  (s\<lparr>activeLoops := removeAll r (activeLoops s),
                     deadLoops := set_add r (deadLoops s),
                     freeScopeNums := freeScopeNums s @ [getScopeNum s r]\<rparr>)
         \<and> r \<notin> set (activeLoops s')
         \<and> r \<in> set (set_add r (deadLoops s))
         \<and> freeScopeNums s' = freeScopeNums s @ [getScopeNum s r]
         \<and> runCode s' = runCode s @
              [global_wrap (header @ ''\<newline>'' @ declarations s') @ stop_blocks s (set_add r (deadLoops s))]
         \<and> perform e s' (Delete r)
              = (s', Some (Error (''Loop tag '' @ getTag s r @ '' not present.'')))))"
proof (intro conjI impI)
  assume "r \<notin> set (activeLoops s)"
  then show "removeLoopFromSet r s = Inl (Error (''Loop tag '' @ getTag s r @ '' not present.''))"
    by (rule removeLoopFromSet_absent)
  then show "perform e s (Delete r) = (s, Some (Error (''Loop tag '' @ getTag s r @ '' not present.'')))"
    by (simp add: delete_def)
next
  assume act: "r \<in> set (activeLoops s)"
  define t where "t = s\<lparr>activeLoops := removeAll r (activeLoops s),
                     deadLoops := set_add r (deadLoops s),
                     freeScopeNums := freeScopeNums s @ [getScopeNum s r]\<rparr>"
  define s' where "s' = Coordinator_generateRuby t"
  have rm: "removeLoopFromSet r s = Inr s'"
    using act by (simp add: removeLoopFromSet_active s'_def t_def)
  have gone: "r \<notin> set (activeLoops s')"
    by (simp add: s'_def t_def)
  have tag: "getTag s' = getTag s"
    by (simp add: s'_def t_def)
  have decl: "declarations t = declarations s'"
    by (rule declarations_cong) (simp_all add: s'_def)
  have "stop_blocks t (deadLoops t) = stop_blocks s (set_add r (deadLoops s))"
    using stop_block_cong [of t s] by (simp add: stop_blocks_def t_def)
  then have prog: "compiled_program t =
      global_wrap (header @ ''\<newline>'' @ declarations s') @ stop_blocks s (set_add r (deadLoops s))"
    by (simp add: compiled_program_def decl)
  have sent: "runCode s' = runCode s @
      [global_wrap (header @ ''\<newline>'' @ declarations s') @ stop_blocks s (set_add r (deadLoops s))]"
    by (simp add: s'_def prog) (simp add: t_def)
  have again: "perform e s' (Delete r)
      = (s', Some (Error (''Loop tag '' @ getTag s r @ '' not present.'')))"
    using gone by (simp add: delete_def removeLoopFromSet_absent tag)
  show "\<exists>s'. removeLoopFromSet r s = Inr s' \<and> perform e s (Delete r) = (s', None)
         \<and> s' = Coordinator_generateRuby
                  (s\<lparr>activeLoops := removeAll r (activeLoops s),
                     deadLoops := set_add r (deadLoops s),
                     freeScopeNums := freeScopeNums s @ [getScopeNum s r]\<rparr>)
         \<and> r \<notin> set (activeLoops s')
         \<and> r \<in> set (set_add r (deadLoops s))
         \<and> freeScopeNums s' = freeScopeNums s @ [getScopeNum s r]
         \<and> runCode s' = runCode s @
              [global_wrap (header @ ''\<newline>'' @ declarations s') @ stop_blocks s (set_add r (deadLoops s))]
         \<and> perform e s' (Delete r)
              = (s', Some (Error (''Loop tag '' @ getTag s r @ '' not present.'')))"
  proof (intro exI [of _ s'] conjI)
    show "removeLoopFromSet r s = Inr s'" by (rule rm)
    show "perform e s (Delete r) = (s', None)" by (simp add: delete_def rm)
    show "s' = Coordinator_generateRuby
                  (s\<lparr>activeLoops := removeAll r (activeLoops s),
                     deadLoops := set_add r (deadLoops s),
                     freeScopeNums := freeScopeNums s @ [getScopeNum s r]\<rparr>)"
      by (simp add: s'_def t_def)
    show "r \<notin> set (activeLoops s')" by (rule gone)
    show "r \<in> set (set_add r (deadLoops s))" by (simp add: set_add_def)
    show "freeScopeNums s' = freeScopeNums s @ [getScopeNum s r]" by (simp add: s'_def t_def)
    show "runCode s' = runCode s @
              [global_wrap (header @ ''\<newline>'' @ declarations s') @ stop_blocks s (set_add r (deadLoops s))]"
      by (rule sent)
    show "perform e s' (Delete r)
              = (s', Some (Error (''Loop tag '' @ getTag s r @ '' not present.'')))"
      by (rule again)
  qed
qed

lemma first_loop:
  "activeLoops (run e [New nm]) = [0]"
  "getTag (run e [New nm]) 0 = ''loop_0_'' @ nm"
  "getScopeNum (run e [New nm]) 0 = Some 2"
  "loops (run e [New nm]) 0 =
     Some (LiveLoop_generateRuby e
        \<lparr>rawRuby = None, volume = 1, outputRuby = None, loopId = 0,
         tag = ''loop_0_'' @ nm, effectNum = 0, effectData = getEffect e 0, scopeNum = Some 2\<rparr>)"
  "idCount (run e [New nm]) = 1"
  "deadLoops (run e [New nm]) = []"
  by (simp_all add: run_one new_simps set_add_def getTag_def getScopeNum_def fresh_loop0 upt_2_128
        showNat_digit)

lemma first_loop_pool: "freeScopeNums (run e [New nm]) = map Some [3..<128]"
  by (simp add: run_one new_simps upt_conv_Cons [of 2 128] del: upt_rec_numeral)

lemma first_loop_removed:
  "run e [New nm, Delete 0] =
     Coordinator_generateRuby
       ((run e [New nm])\<lparr>activeLoops := [], deadLoops := [0],
          freeScopeNums := map Some [3..<128] @ [Some 2]\<rparr>)"
  by (simp add: run_two invoke_simps first_loop first_loop_pool removeLoopFromSet_active set_add_def
        del: upt_rec_numeral)

theorem removeLoop_twice_witness:
  "0 \<in> set (activeLoops (run demo [New ''alpha'']))
   \<and> (\<exists>s'. removeLoopFromSet 0 (run demo [New ''alpha'']) = Inr s'
         \<and> 0 \<notin> set (activeLoops s')
         \<and> freeScopeNums s' = freeScopeNums (run demo [New ''alpha'']) @ [Some 2]
         \<and> perform demo s' (Delete 0) = (s', Some (Error ''Loop tag loop_0_alpha not present.'')))
   \<and> 0 \<notin> set (activeLoops (run demo [New ''alpha'', Delete 0]))
   \<and> perform demo (run demo [New ''alpha'', Delete 0]) (Delete 0)
       = (run demo [New ''alpha'', Delete 0], Some (Error ''Loop tag loop_0_alpha not present.''))"
proof -
  have a: "0 \<in> set (activeLoops (run demo [New ''alpha'']))"
    by (simp add: first_loop)
  have b: "0 \<notin> set (activeLoops (run demo [New ''alpha'', Delete 0]))"
    by (simp add: first_loop_removed)
  have tag2: "getTag (run demo [New ''alpha'', Delete 0]) 0 = ''loop_0_alpha''"
    by (simp add: first_loop_removed first_loop)
  show ?thesis
    using a b removeLoop_twice [of 0 "run demo [New ''alpha'']" demo]
      removeLoop_twice [of 0 "run demo [New ''alpha'', Delete 0]" demo]
    by (auto simp: first_loop tag2 simp del: upt_rec_numeral)
qed

subsection \<open>Setters on a removed loop\<close>

lemma compiled_program_modify:
  assumes "r \<notin> set (activeLoops s)" and "\<And>l. tag (f l) = tag l"
  shows "compiled_program (modify r f s) = compiled_program s"
proof -
  have "getTag (modify r f s) = getTag s"
    using assms(2) by (auto simp: fun_eq_iff getTag_def loops_modify split: option.splits)
  then have "stop_block (modify r f s) = stop_block s"
    by (rule stop_block_cong)
  moreover have "map (\<lambda>x. js_string (getRuby (modify r f s) x) @ ''\<newline>'') (activeLoops s)
      = map (\<lambda>x. js_string (getRuby s x) @ ''\<newline>'') (activeLoops s)"
    using assms(1) by (intro map_cong refl) (auto simp: getRuby_def loops_modify)
  then have "declarations (modify r f s) = declarations s"
    by (simp only: declarations_def modify_simps)
  ultimately show ?thesis
    by (simp add: compiled_program_def stop_blocks_def)
qed

lemma modify_modify: "modify r f (modify r g s) = modify r (f \<circ> g) s"
  by (cases "loops s r") (simp_all add: modify_def)

lemma nextEffect_eq:
  "nextEffect e r s =
     Coordinator_generateRuby
       (modify r (\<lambda>l. LiveLoop_generateRuby e
             (l\<lparr>effectNum := js_rem (effectNum l + 1) (getNumberOfEffects e),
                effectData := getEffect e (js_rem (effectNum l + 1) (getNumberOfEffects e))\<rparr>)) s)"
  by (simp add: nextEffect_def generateAndPushRuby_def Let_def modify_modify comp_def)

lemma prevEffect_eq:
  "prevEffect e r s =
     Coordinator_generateRuby
       (modify r (\<lambda>l. LiveLoop_generateRuby e
             (l\<lparr>effectNum := js_rem (effectNum l - 1) (getNumberOfEffects e),
                effectData := getEffect e (js_rem (effectNum l - 1) (getNumberOfEffects e))\<rparr>)) s)"
  by (simp add: prevEffect_def generateAndPushRuby_def Let_def modify_modify comp_def)



subsection \<open>The free list is a queue\<close>

lemma getFreeScope_front:
  "freeScopeNums s = c # cs \<Longrightarrow> getFreeScope s = (c, s\<lparr>freeScopeNums := cs\<rparr>)"
  by (simp add: getFreeScope_def)

lemma getScopeNum_generate [simp]:
  "getScopeNum (Coordinator_generateRuby s) = getScopeNum s"
  by (simp add: fun_eq_iff getScopeNum_def)

lemma getScopeNum_upd [simp]:
  "getScopeNum (s\<lparr>activeLoops := a\<rparr>) = getScopeNum s"
  "getScopeNum (s\<lparr>deadLoops := d\<rparr>) = getScopeNum s"
  "getScopeNum (s\<lparr>freeScopeNums := p\<rparr>) = getScopeNum s"
  by (simp_all add: fun_eq_iff getScopeNum_def)

lemma getScopeNum_new:
  "getScopeNum (snd (LiveLoop_new e nm s)) r =
     (if r = idCount s then fst (getFreeScope s) else getScopeNum s r)"
  by (simp add: getScopeNum_def new_simps)

lemma loops_new_None:
  "(loops (snd (LiveLoop_new e nm s)) r = None) = (r \<noteq> idCount s \<and> loops s r = None)"
  by (simp add: new_simps)

text \<open>The scenario, step by step.\<close>

lemma two_loops:
  "activeLoops (run e [New a, New b]) = [0, 1]"
  "freeScopeNums (run e [New a, New b]) = map Some [4..<128]"
  "idCount (run e [New a, New b]) = 2"
  "loops (run e [New a, New b]) 0 \<noteq> None"
  by (simp_all add: run_two first_loop first_loop_pool new_simps set_add_def
        upt_conv_Cons [of 3 128] del: upt_rec_numeral)

lemma two_loops_channel0: "getScopeNum (run e [New a, New b]) 0 = Some 2"
  by (simp add: run_two first_loop getScopeNum_new)

lemma two_loops_channel1: "getScopeNum (run e [New a, New b]) (Suc 0) = Some 3"
  by (simp add: run_two first_loop first_loop_pool getScopeNum_new
        upt_conv_Cons [of 3 128] del: upt_rec_numeral)

lemmas two_loops_channels = two_loops_channel0 two_loops_channel1

lemma run_three: "run e [a, b, c] = fst (invoke e (run e [a, b]) c)"
  using run_snoc [of e "[a, b]" c] by simp

lemma run_four: "run e [a, b, c, d] = fst (invoke e (run e [a, b, c]) d)"
  using run_snoc [of e "[a, b, c]" d] by simp

lemma first_of_two_removed_eq:
  "run e [New a, New b, Delete 0] =
     Coordinator_generateRuby
       ((run e [New a, New b])\<lparr>activeLoops := [1], deadLoops := set_add 0 (deadLoops (run e [New a, New b])),
          freeScopeNums := map Some [4..<128] @ [Some 2]\<rparr>)"
  by (simp add: run_three invoke_simps two_loops two_loops_channels removeLoopFromSet_active
        del: upt_rec_numeral)

lemma first_of_two_removed:
  "activeLoops (run e [New a, New b, Delete 0]) = [1]"
  "freeScopeNums (run e [New a, New b, Delete 0]) = map Some [4..<128] @ [Some 2]"
  "idCount (run e [New a, New b, Delete 0]) = 2"
  "getScopeNum (run e [New a, New b, Delete 0]) = getScopeNum (run e [New a, New b])"
  by (simp_all add: first_of_two_removed_eq two_loops del: upt_rec_numeral)

lemma scenario_channel0: "getScopeNum (run e scenario) 0 = Some 2"
  by (simp add: scenario_def run_four first_of_two_removed getScopeNum_new two_loops_channels)

lemma scenario_channel1: "getScopeNum (run e scenario) (Suc 0) = Some 3"
  by (simp add: scenario_def run_four first_of_two_removed getScopeNum_new two_loops_channels)

lemma scenario_channel2: "getScopeNum (run e scenario) 2 = Some 4"
  by (simp add: scenario_def run_four first_of_two_removed getScopeNum_new
        upt_conv_Cons [of 4 128] del: upt_rec_numeral)

lemmas scenario_channels = scenario_channel0 scenario_channel1 scenario_channel2

lemma scenario_registry:
  "freeScopeNums (run e scenario) = map Some [5..<128] @ [Some 2]"
  "activeLoops (run e scenario) = [1, 2]"
  by (simp_all add: scenario_def run_four first_of_two_removed new_simps
        set_add_def upt_conv_Cons [of 4 128] del: upt_rec_numeral)

text \<open>
  Claim C2 as stated fails. After creating A and B (channels 2 and 3) and removing A,
  channel 2 is free again, but it stands at the end of the free list:
  \<^verbatim>\<open>getFreeScope\<close> returns 4, and the loop C created next holds channel 4.
\<close>

theorem lowest_channel_counterexample:
  "getScopeNum (run demo scenario) 0 = Some 2
   \<and> getScopeNum (run demo scenario) 1 = Some 3
   \<and> Some 2 \<in> set (freeScopeNums (run demo [New ''alpha'', New ''beta'', Delete 0]))
   \<and> fst (getFreeScope (run demo [New ''alpha'', New ''beta'', Delete 0])) = Some 4
   \<and> getScopeNum (run demo scenario) 2 = Some 4"
  by (simp add: scenario_channels first_of_two_removed upt_conv_Cons [of 4 128]
        del: upt_rec_numeral)

text \<open>
  Claim C2, amended. \<^verbatim>\<open>getFreeScope\<close> on a non-empty free list removes and
  returns its first element. The list starts as 2, ..., 127 and a removal appends the
  released channel at its end, so the list is a queue: in the scenario A holds 2, B
  holds 3, and C, created after A was removed, holds 4, with 2 last in the list.
\<close>

theorem getFreeScope_front_of_queue:
  "(freeScopeNums s = c # cs \<longrightarrow> getFreeScope s = (c, s\<lparr>freeScopeNums := cs\<rparr>))
   \<and> freeScopeNums fresh = map Some [2..<128]
   \<and> (r \<in> set (activeLoops s) \<longrightarrow>
        (\<exists>s'. removeLoopFromSet r s = Inr s' \<and> freeScopeNums s' = freeScopeNums s @ [getScopeNum s r]))
   \<and> getScopeNum (run e scenario) 0 = Some 2
   \<and> getScopeNum (run e scenario) 1 = Some 3
   \<and> getScopeNum (run e scenario) 2 = Some 4
   \<and> freeScopeNums (run e scenario) = map Some [5..<128] @ [Some 2]"
  by (simp add: getFreeScope_front removeLoopFromSet_active scenario_channels scenario_registry
        del: upt_rec_numeral)

theorem getFreeScope_front_of_queue_witness:
  "freeScopeNums (run demo [New ''alpha'', New ''beta'', Delete 0]) = Some 4 # (map Some [5..<128] @ [Some 2])
   \<and> getFreeScope (run demo [New ''alpha'', New ''beta'', Delete 0])
       = (Some 4, (run demo [New ''alpha'', New ''beta'', Delete 0])
                    \<lparr>freeScopeNums := map Some [5..<128] @ [Some 2]\<rparr>)
   \<and> 0 \<in> set (activeLoops (run demo [New ''alpha'', New ''beta'']))
   \<and> (\<exists>s'. removeLoopFromSet 0 (run demo [New ''alpha'', New ''beta'']) = Inr s'
          \<and> freeScopeNums s' = map Some [4..<128] @ [Some 2])
   \<and> getScopeNum (run demo scenario) 2 = Some 4"
proof -
  have p: "freeScopeNums (run demo [New ''alpha'', New ''beta'', Delete 0])
      = Some 4 # (map Some [5..<128] @ [Some 2])"
    by (simp add: first_of_two_removed upt_conv_Cons [of 4 128] del: upt_rec_numeral)
  have a: "0 \<in> set (activeLoops (run demo [New ''alpha'', New ''beta'']))"
    by (simp add: two_loops)
  show ?thesis
    using p a
      getFreeScope_front_of_queue [of "run demo [New ''alpha'', New ''beta'', Delete 0]"
        "Some 4" "map Some [5..<128] @ [Some 2]" 0 demo]
      getFreeScope_front_of_queue [of "run demo [New ''alpha'', New ''beta'']"
        "Some 4" "[]" 0 demo]
    by (simp add: two_loops two_loops_channels del: upt_rec_numeral)
qed


subsection \<open>Creating loops until the channels run out\<close>

lemma run_map_New_snoc:
  "run e (map New (nms @ [nm])) = snd (LiveLoop_new e nm (run e (map New nms)))"
  by simp

lemma many_loops:
  "idCount (run e (map New nms)) = length nms
   \<and> activeLoops (run e (map New nms)) = [0..<length nms]
   \<and> freeScopeNums (run e (map New nms)) = map Some [Suc (Suc (length nms))..<128]
   \<and> (\<forall>i<length nms. getScopeNum (run e (map New nms)) i
         = (if i < 126 then Some (Suc (Suc i)) else None))"
proof (induction nms rule: rev_induct)
  case Nil
  then show ?case by (simp add: numeral_2_eq_2 [symmetric] del: upt_rec_numeral)
next
  case (snoc nm nms)
  let ?s = "run e (map New nms)"
  let ?n = "length nms"
  have s: "run e (map New (nms @ [nm])) = snd (LiveLoop_new e nm ?s)"
    by (rule run_map_New_snoc)
  have front: "fst (getFreeScope ?s) = (if ?n < 126 then Some (Suc (Suc ?n)) else None)"
    using snoc by (simp add: upt_conv_Cons del: upt_rec_numeral)
  have pool: "tl (freeScopeNums ?s) = map Some [Suc (Suc (Suc ?n))..<128]"
    using snoc by (simp add: map_tl [symmetric] del: upt_rec_numeral)
  have act: "set_add ?n (activeLoops ?s) = [0..<Suc ?n]"
    using snoc by (simp add: set_add_def)
  have old: "\<forall>i<?n. getScopeNum ?s i = (if i < 126 then Some (Suc (Suc i)) else None)"
    using snoc by simp
  have "idCount (snd (LiveLoop_new e nm ?s)) = Suc ?n"
    using snoc by (simp add: new_simps)
  moreover have "activeLoops (snd (LiveLoop_new e nm ?s)) = [0..<Suc ?n]"
    using snoc act by (simp add: new_simps del: upt_Suc)
  moreover have "freeScopeNums (snd (LiveLoop_new e nm ?s)) = map Some [Suc (Suc (Suc ?n))..<128]"
    using pool by (simp add: new_simps)
  moreover have "\<forall>i<Suc ?n. getScopeNum (snd (LiveLoop_new e nm ?s)) i
       = (if i < 126 then Some (Suc (Suc i)) else None)"
    using snoc front old by (auto simp: getScopeNum_new less_Suc_eq)
  ultimately show ?case
    unfolding s by simp
qed

lemma replicate_New: "replicate n (New nm) = map New (replicate n nm)"
  by simp

lemma map_New_replicate: "map New (replicate n nm) = replicate n (New nm)"
  by simp

lemma replicate_loops:
  "idCount (run e (replicate n (New nm))) = n"
  "activeLoops (run e (replicate n (New nm))) = [0..<n]"
  "freeScopeNums (run e (replicate n (New nm))) = map Some [n + 2..<128]"
  "i < n \<Longrightarrow> getScopeNum (run e (replicate n (New nm))) i = (if i < 126 then Some (i + 2) else None)"
  using many_loops [of e "replicate n nm"]
  unfolding map_replicate length_replicate
  by (simp_all del: upt_rec_numeral)

lemma run_replicate_Suc:
  "run e (replicate (Suc n) c) = fst (invoke e (run e (replicate n c)) c)"
proof -
  have "replicate (Suc n) c = replicate n c @ [c]"
    by (simp add: replicate_append_same)
  then show ?thesis by (simp only: run_snoc)
qed

lemma showNat_126: "showNat 126 = ''126''"
  by (simp add: showNat.simps)

text \<open>
  Claim C3, at the 127th \<^verbatim>\<open>new LiveLoop('alpha')\<close> on a fresh coordinator. After
  126 loops the free list is empty. The next construction raises nothing: the loop is
  added to the active set, the counter moves on, a program is sent, and the loop's
  channel is \<^verbatim>\<open>undefined\<close>, which its fragment prints as the scope number.
\<close>

theorem createLoop_on_empty_pool:
  \<open>freeScopeNums (run demo (replicate 126 (New ''alpha''))) = []
   \<and> length (activeLoops (run demo (replicate 126 (New ''alpha'')))) = 126
   \<and> snd (invoke demo (run demo (replicate 126 (New ''alpha''))) (New ''alpha'')) = None
   \<and> activeLoops (fst (invoke demo (run demo (replicate 126 (New ''alpha''))) (New ''alpha'')))
       = activeLoops (run demo (replicate 126 (New ''alpha''))) @ [126]
   \<and> idCount (fst (invoke demo (run demo (replicate 126 (New ''alpha''))) (New ''alpha''))) = 127
   \<and> getScopeNum (fst (invoke demo (run demo (replicate 126 (New ''alpha''))) (New ''alpha''))) 126 = None
   \<and> length (runCode (fst (invoke demo (run demo (replicate 126 (New ''alpha''))) (New ''alpha''))))
       = length (runCode (run demo (replicate 126 (New ''alpha'')))) + 1
   \<and> getRuby (fst (invoke demo (run demo (replicate 126 (New ''alpha''))) (New ''alpha''))) 126 =
     Some (''live_loop :loop_126_alpha do\<newline>'' @
           ''with_fx "sonic-pi-fx_scope_out", scope_num: undefined do\<newline>'' @
           ''with_fx :level, amp: 1 do\<newline>'' @
           ''with_fx :reverb do\<newline>'' @
           ''undefined'' @
           ''\<newline>end\<newline>'' @ ''\<newline>end\<newline>'' @ ''\<newline>end\<newline>'' @ ''\<newline>end'')\<close>
proof -
  let ?s = "run demo (replicate 126 (New ''alpha''))"
  have id: "idCount ?s = 126" and act: "activeLoops ?s = [0..<126]"
    and pool: "freeScopeNums ?s = []"
    by (simp_all add: replicate_loops)
  have ruby: \<open>getRuby (snd (LiveLoop_new demo ''alpha'' ?s)) 126 =
     Some (''live_loop :loop_126_alpha do\<newline>'' @
           ''with_fx "sonic-pi-fx_scope_out", scope_num: undefined do\<newline>'' @
           ''with_fx :level, amp: 1 do\<newline>'' @
           ''with_fx :reverb do\<newline>'' @
           ''undefined'' @
           ''\<newline>end\<newline>'' @ ''\<newline>end\<newline>'' @ ''\<newline>end\<newline>'' @ ''\<newline>end'')\<close>
    using getRuby_new [of demo "''alpha''" ?s]
    by (simp add: id pool showNat_126 js_number_def)
  have len: "length (activeLoops ?s) = 126"
    unfolding act by simp
  have act': "activeLoops (snd (LiveLoop_new demo ''alpha'' ?s)) = activeLoops ?s @ [126]"
    unfolding new_simps id by (simp add: act set_add_def del: upt_rec_numeral)
  show ?thesis
    using ruby len act'
    by (simp add: pool id new_simps runCode_new getScopeNum_new)
qed

lemma allocated_iff: "(loops (run e cs) r = None) = (idCount (run e cs) \<le> r)"
  using registry_ok_run [of e cs] by (simp add: registry_ok_def)

text \<open>
  Claim C1, at 127 and 128 constructions on a fresh coordinator. The 127th loop is
  active and its channel is \<^verbatim>\<open>undefined\<close>, which is no number of 2 to 127; the
  128th holds \<^verbatim>\<open>undefined\<close> as well, so the channels of the active loops are not
  pairwise distinct; and once the 127th is removed, the free list holds the very value
  the active 128th loop holds.
\<close>

theorem channels_after_exhaustion:
  "126 \<in> set (activeLoops (run demo (replicate 127 (New ''alpha''))))
   \<and> getScopeNum (run demo (replicate 127 (New ''alpha''))) 126 = None
   \<and> 126 \<in> set (activeLoops (run demo (replicate 128 (New ''alpha''))))
   \<and> 127 \<in> set (activeLoops (run demo (replicate 128 (New ''alpha''))))
   \<and> getScopeNum (run demo (replicate 128 (New ''alpha''))) 126 = None
   \<and> getScopeNum (run demo (replicate 128 (New ''alpha''))) 127 = None
   \<and> \<not> distinct (activeChannels (run demo (replicate 128 (New ''alpha''))))
   \<and> 127 \<in> set (activeLoops (run demo (replicate 128 (New ''alpha'') @ [Delete 126])))
   \<and> getScopeNum (run demo (replicate 128 (New ''alpha'') @ [Delete 126])) 127 = None
   \<and> freeScopeNums (run demo (replicate 128 (New ''alpha'') @ [Delete 126])) = [None]"
proof -
  let ?s = "run demo (replicate 128 (New ''alpha''))"
  have act: "activeLoops ?s = [0..<128]" and pool: "freeScopeNums ?s = []"
    and id: "idCount ?s = 128"
    by (simp_all add: replicate_loops)
  have c126: "getScopeNum ?s 126 = None" and c127: "getScopeNum ?s 127 = None"
    by (simp_all add: replicate_loops)
  have "\<not> inj_on (getScopeNum ?s) (set (activeLoops ?s))"
  proof
    assume inj: "inj_on (getScopeNum ?s) (set (activeLoops ?s))"
    have m: "(126::nat) \<in> set (activeLoops ?s)" "(127::nat) \<in> set (activeLoops ?s)"
      unfolding act by simp_all
    have eq: "getScopeNum ?s 126 = getScopeNum ?s 127"
      using c126 c127 by simp
    have "(126::nat) = 127"
      by (rule inj_onD [OF inj eq m])
    then show False by simp
  qed
  then have nd: "\<not> distinct (activeChannels ?s)"
    by (simp add: activeChannels_def distinct_map)
  have live: "loops ?s 126 \<noteq> None"
    by (simp add: allocated_iff id)
  have in126: "126 \<in> set (activeLoops ?s)"
    unfolding act by simp
  have del: "run demo (replicate 128 (New ''alpha'') @ [Delete 126]) =
      Coordinator_generateRuby
           (?s\<lparr>activeLoops := removeAll 126 (activeLoops ?s),
              deadLoops := set_add 126 (deadLoops ?s),
              freeScopeNums := freeScopeNums ?s @ [getScopeNum ?s 126]\<rparr>)"
    using live in126 by (simp add: invoke_simps removeLoopFromSet_active)
  have after: "127 \<in> set (activeLoops (run demo (replicate 128 (New ''alpha'') @ [Delete 126])))"
    "getScopeNum (run demo (replicate 128 (New ''alpha'') @ [Delete 126])) 127 = None"
    "freeScopeNums (run demo (replicate 128 (New ''alpha'') @ [Delete 126])) = [None]"
    unfolding del by (simp_all add: act pool c126 c127 del: upt_rec_numeral)
  have "126 \<in> set (activeLoops (run demo (replicate 127 (New ''alpha''))))"
    "getScopeNum (run demo (replicate 127 (New ''alpha''))) 126 = None"
    by (simp_all add: replicate_loops)
  moreover have "126 \<in> set (activeLoops ?s)" "127 \<in> set (activeLoops ?s)"
    unfolding act by simp_all
  ultimately show ?thesis
    using c126 c127 nd after by blast
qed


subsection \<open>The compiled program\<close>

lemma stopped_Nil [simp]: "stopped e [] = []"
  by (simp add: stopped_def)

lemma stopped_snoc: "stopped e (cs @ [c]) = stopped e cs @ removed_by (run e cs) c"
proof -
  define F where "F = (\<lambda>i. removed_by (run e (take i (cs @ [c]))) ((cs @ [c]) ! i))"
  have old: "map F [0..<length cs] = map (\<lambda>i. removed_by (run e (take i cs)) (cs ! i)) [0..<length cs]"
    unfolding F_def by (intro map_cong refl) (simp add: nth_append)
  have last: "F (length cs) = removed_by (run e cs) c"
    by (simp add: F_def)
  have "stopped e (cs @ [c]) = concat (map F [0..<Suc (length cs)])"
    by (simp add: stopped_def F_def)
  also have "\<dots> = concat (map F [0..<length cs]) @ F (length cs)"
    by simp
  finally show ?thesis
    by (simp only: old last stopped_def)
qed

lemma declarations_generate [simp]:
  "declarations (Coordinator_generateRuby s) = declarations s"
  by (rule declarations_cong) simp_all

lemma compiled_program_no_dead:
  "deadLoops s = [] \<Longrightarrow> compiled_program s = global_wrap (header @ ''\<newline>'' @ declarations s)"
  by (simp add: compiled_program_def stop_blocks_def)

text \<open>What one call sends, from a state between two calls.\<close>

lemma invoke_sends:
  assumes "registry_ok s"
  shows "runCode (fst (invoke e s c)) = runCode s
    \<or> runCode (fst (invoke e s c)) = runCode s @
         [global_wrap (header @ ''\<newline>'' @ declarations (fst (invoke e s c)))
          @ stop_blocks s (removed_by s c)]"
proof -
  have dead: "deadLoops s = []"
    using assms by (simp add: registry_ok_def)
  have push: "runCode (generateAndPushRuby e r s) = runCode s @
         [global_wrap (header @ ''\<newline>'' @ declarations (generateAndPushRuby e r s))]" for r
    using dead by (simp add: generateAndPushRuby_def compiled_program_no_dead)
  show ?thesis
  proof (cases c)
    case (New nm)
    have "compiled_program ((snd (LiveLoop_new e nm s))\<lparr>deadLoops := deadLoops s\<rparr>)
        = global_wrap (header @ ''\<newline>'' @ declarations (snd (LiveLoop_new e nm s)))"
      using dead declarations_cong [of "(snd (LiveLoop_new e nm s))\<lparr>deadLoops := []\<rparr>" "snd (LiveLoop_new e nm s)"]
      by (simp add: compiled_program_no_dead)
    then show ?thesis
      using New by (simp add: runCode_new stop_blocks_def)
  next
    case (SetVolume r v)
    then show ?thesis by (simp add: invoke_def split: option.splits)
  next
    case (NextEffect r)
    have "runCode (nextEffect e r s) = runCode s @
         [global_wrap (header @ ''\<newline>'' @ declarations (nextEffect e r s))]"
      using dead by (simp add: nextEffect_eq compiled_program_no_dead)
    then show ?thesis
      using NextEffect by (simp add: invoke_def stop_blocks_def split: option.splits)
  next
    case (PrevEffect r)
    have "runCode (prevEffect e r s) = runCode s @
         [global_wrap (header @ ''\<newline>'' @ declarations (prevEffect e r s))]"
      using dead by (simp add: prevEffect_eq compiled_program_no_dead)
    then show ?thesis
      using PrevEffect by (simp add: invoke_def stop_blocks_def split: option.splits)
  next
    case (GenerateRuby r)
    then show ?thesis by (simp add: invoke_def split: option.splits)
  next
    case (GenerateAndPushRuby r)
    then show ?thesis
      using push [of r] by (simp add: invoke_def stop_blocks_def split: option.splits)
  next
    case (Delete r)
    show ?thesis
    proof (cases "loops s r \<noteq> None \<and> r \<in> set (activeLoops s)")
      case True
      define t where "t = s\<lparr>activeLoops := removeAll r (activeLoops s),
                     deadLoops := set_add r (deadLoops s),
                     freeScopeNums := freeScopeNums s @ [getScopeNum s r]\<rparr>"
      have s': "fst (invoke e s c) = Coordinator_generateRuby t"
        using True Delete by (simp add: invoke_simps removeLoopFromSet_active t_def)
      have "stop_blocks t (deadLoops t) = stop_blocks s [r]"
        using stop_block_cong [of t s] dead by (simp add: stop_blocks_def t_def set_add_def)
      then have "compiled_program t =
          global_wrap (header @ ''\<newline>'' @ declarations (Coordinator_generateRuby t)) @ stop_blocks s [r]"
        by (simp add: compiled_program_def)
      then show ?thesis
        using True Delete unfolding s' by (simp add: t_def)
    next
      case False
      then have "fst (invoke e s c) = s"
        using Delete
        by (auto simp: invoke_def delete_def removeLoopFromSet_absent split: option.splits)
      then show ?thesis by simp
    qed
  qed
qed

text \<open>A call removes active loops only, and what it removes is no longer active.\<close>

lemma invoke_removed:
  assumes "registry_ok s"
  shows "set (activeLoops (fst (invoke e s c))) \<subseteq> insert (idCount s) (set (activeLoops s))
    \<and> set (activeLoops (fst (invoke e s c))) \<inter> set (removed_by s c) = {}
    \<and> set (removed_by s c) \<subseteq> set (activeLoops s)
    \<and> distinct (removed_by s c)
    \<and> idCount s \<le> idCount (fst (invoke e s c))"
proof (cases c)
  case (New nm)
  then show ?thesis by (auto simp: new_simps set_add_def)
next
  case (Delete r)
  have "r \<in> set (activeLoops s) \<Longrightarrow> loops s r \<noteq> None"
    using assms by (auto simp: registry_ok_def list_all_iff)
  then show ?thesis
    using Delete
    by (cases "r \<in> set (activeLoops s)")
       (auto simp: invoke_simps removeLoopFromSet_active removeLoopFromSet_absent invoke_def delete_def
          split: option.splits)
qed (auto simp: invoke_def split: option.splits)

lemma stopped_run:
  "distinct (stopped e cs)
   \<and> set (stopped e cs) \<inter> set (activeLoops (run e cs)) = {}
   \<and> list_all (\<lambda>r. r < idCount (run e cs)) (stopped e cs)"
proof (induction cs rule: rev_induct)
  case Nil
  then show ?case by simp
next
  case (snoc c cs)
  let ?s = "run e cs"
  have ok: "registry_ok ?s" by (rule registry_ok_run)
  have act: "list_all (\<lambda>r. r < idCount ?s) (activeLoops ?s)"
    using ok by (simp add: registry_ok_def)
  note step = invoke_removed [OF ok, of e c]
  have small: "\<forall>r\<in>set (removed_by ?s c). r < idCount ?s"
    using step act by (auto simp: list_all_iff)
  have "distinct (stopped e cs @ removed_by ?s c)"
    using snoc step by auto
  moreover have "set (stopped e cs @ removed_by ?s c) \<inter> set (activeLoops (fst (invoke e ?s c))) = {}"
    using snoc step by (auto simp: list_all_iff)
  moreover have "list_all (\<lambda>r. r < idCount (fst (invoke e ?s c))) (stopped e cs @ removed_by ?s c)"
    using snoc step small by (fastforce simp: list_all_iff)
  ultimately show ?case
    by (simp add: stopped_snoc)
qed

lemma remove_sends:
  assumes "registry_ok s" and "r \<in> set (activeLoops s)"
  shows "runCode (fst (invoke e s (Delete r))) = runCode s @
           [global_wrap (header @ ''\<newline>'' @ declarations (fst (invoke e s (Delete r))))
            @ stop_block s r]"
    and "r \<notin> set (activeLoops (fst (invoke e s (Delete r))))"
proof -
  have "removed_by s (Delete r) = [r]"
    using assms(2) by simp
  moreover have live: "loops s r \<noteq> None"
    using assms by (auto simp: registry_ok_def list_all_iff)
  moreover have "runCode (fst (invoke e s (Delete r))) \<noteq> runCode s"
    using live assms(2) by (simp add: invoke_simps removeLoopFromSet_active)
  ultimately show "runCode (fst (invoke e s (Delete r))) = runCode s @
           [global_wrap (header @ ''\<newline>'' @ declarations (fst (invoke e s (Delete r))))
            @ stop_block s r]"
    using invoke_sends [OF assms(1), of e "Delete r"] by (simp add: stop_blocks_def)
  show "r \<notin> set (activeLoops (fst (invoke e s (Delete r))))"
    using live assms(2) by (simp add: invoke_simps removeLoopFromSet_active)
qed

lemma global_wrap_text:
  \<open>global_wrap body =
     ''\<newline>      with_fx "sonic-pi-fx_scope_out", scope_num: 1 do\<newline>        '' @ body
     @ ''\<newline>      end\<newline>    ''\<close>
  by (simp add: global_wrap_def GLOBAL_OSCILLOSCOPE_INDEX_def showNat_digit)



subsection \<open>Tags tell loops apart\<close>

lemma showNat_nonempty: "showNat n \<noteq> []"
  by (subst showNat.simps) simp

lemma showNat_no_underscore: "CHR ''_'' \<notin> set (showNat n)"
proof (induction n rule: showNat.induct)
  case (1 n)
  have digit: "''0123456789'' ! k \<noteq> CHR ''_''" if "k < 10" for k :: nat
  proof -
    have "''0123456789'' ! k \<in> set ''0123456789''"
      using that by (intro nth_mem) simp
    then show ?thesis by auto
  qed
  show ?case
  proof (cases "n < 10")
    case True
    then show ?thesis using digit [of n] by (simp add: showNat_digit)
  next
    case False
    then have "showNat n = showNat (n div 10) @ [''0123456789'' ! (n mod 10)]"
      by (subst showNat.simps) simp
    then show ?thesis
      using 1 False digit [of "n mod 10"] by auto
  qed
qed

lemma digit_inj:
  assumes "a < 10" and "b < 10" and "''0123456789'' ! a = ''0123456789'' ! b"
  shows "a = b"
proof -
  have "distinct ''0123456789''" by simp
  then show ?thesis
    using assms by (simp add: nth_eq_iff_index_eq)
qed

lemma showNat_inj: "showNat n = showNat m \<Longrightarrow> n = m"
proof (induction n arbitrary: m rule: showNat.induct)
  case (1 n)
  show ?case
  proof (cases "n < 10")
    case True
    note n = this
    show ?thesis
    proof (cases "m < 10")
      case True
      then show ?thesis
        using 1(2) n by (simp add: showNat_digit digit_inj)
    next
      case False
      then have "showNat m = showNat (m div 10) @ [''0123456789'' ! (m mod 10)]"
        by (subst showNat.simps) simp
      then have "length (showNat m) \<noteq> 1"
        using showNat_nonempty [of "m div 10"] by simp
      moreover have "length (showNat n) = 1"
        using n by (simp add: showNat_digit)
      ultimately show ?thesis
        using 1(2) by simp
    qed
  next
    case False
    note n = this
    have sn: "showNat n = showNat (n div 10) @ [''0123456789'' ! (n mod 10)]"
      using n by (subst showNat.simps) simp
    show ?thesis
    proof (cases "m < 10")
      case True
      have "length (showNat n) \<noteq> 1"
        using showNat_nonempty [of "n div 10"] by (simp add: sn)
      moreover have "length (showNat m) = 1"
        using True by (simp add: showNat_digit)
      ultimately show ?thesis
        using 1(2) by simp
    next
      case False
      then have sm: "showNat m = showNat (m div 10) @ [''0123456789'' ! (m mod 10)]"
        by (subst showNat.simps) simp
      have eq: "showNat (n div 10) = showNat (m div 10)"
        and d: "''0123456789'' ! (n mod 10) = ''0123456789'' ! (m mod 10)"
        using 1(2) by (simp_all add: sn sm)
      have "n div 10 = m div 10"
        using 1(1) [OF n eq] .
      moreover have "n mod 10 = m mod 10"
        using d by (intro digit_inj) simp_all
      ultimately show ?thesis
        by (metis div_mult_mod_eq)
    qed
  qed
qed

lemma before_separator:
  assumes "xs @ c # ys = xs' @ c # ys'" and "c \<notin> set xs" and "c \<notin> set xs'"
  shows "xs = xs'"
proof -
  have "takeWhile (\<lambda>x. x \<noteq> c) (xs @ c # ys) = xs" "takeWhile (\<lambda>x. x \<noteq> c) (xs' @ c # ys') = xs'"
    using assms(2,3) by (auto simp: takeWhile_tail takeWhile_eq_all_conv)
  then show ?thesis
    using assms(1) by simp
qed

lemma tag_inj:
  assumes "''loop_'' @ showNat r @ ''_'' @ nm = ''loop_'' @ showNat r' @ ''_'' @ nm'"
  shows "r = r'"
proof -
  have "showNat r @ CHR ''_'' # nm = showNat r' @ CHR ''_'' # nm'"
    using assms by simp
  then have "showNat r = showNat r'"
    by (rule before_separator) (rule showNat_no_underscore)+
  then show ?thesis by (rule showNat_inj)
qed

lemma tags_differ:
  assumes "loops (run e cs) r = Some l" and "loops (run e' cs') r' = Some l'" and "tag l = tag l'"
  shows "r = r'"
proof -
  obtain nm where "tag l = ''loop_'' @ showNat r @ ''_'' @ nm"
    using loop_ok_run [OF assms(1)] by (auto simp: loop_ok_def)
  moreover obtain nm' where "tag l' = ''loop_'' @ showNat r' @ ''_'' @ nm'"
    using loop_ok_run [OF assms(2)] by (auto simp: loop_ok_def)
  ultimately show ?thesis
    using assms(3) tag_inj [of r nm r' nm'] by simp
qed

text \<open>The fragment of an active loop is a declaration under its tag.\<close>

lemma active_fragment:
  assumes "r \<in> set (activeLoops (run e cs))"
  shows "\<exists>l v. loops (run e cs) r = Some l \<and> 0 \<le> v \<and> v \<le> 1
      \<and> getTag (run e cs) r = tag l
      \<and> (\<exists>nm. tag l = ''loop_'' @ showNat r @ ''_'' @ nm)
      \<and> getRuby (run e cs) r =
          Some (declaration_block (tag l) (js_number (scopeNum l)) (numberToString e v)
                  (name (effectData l)) ''undefined'')"
proof -
  obtain l where l: "loops (run e cs) r = Some l"
    using refs_allocated [OF assms] by auto
  then show ?thesis
    using loop_ok_run [OF l] by (auto simp: loop_ok_def getTag_def getRuby_def)
qed

lemma first_of_two_tag: "getTag (run e [New a, New b]) 0 = ''loop_0_'' @ a"
  by (simp add: run_two getTag_def new_simps first_loop)

text \<open>
  Claim C5. Every compilation sends and stores the text the specification describes:
  inside one wrapper with scope number 1, the header and the fragment of each member
  of the active set, in the order of the set; after the wrapper, one stop block for
  each killed loop; and the killed loops are empty afterwards. Between two calls the
  active set has no member twice and no loop is waiting to be stopped, and the
  fragment of each active loop is a declaration block: the declaration under the
  loop's tag of the telemetry wrapper of its channel, the volume wrapper, the wrapper
  of its effect and the body text. A call sends at most one program, whose stop
  blocks are those of the loops this very call removed; the removal of an active loop
  sends a program ending in the stop block under that loop's tag and the loop is
  active no more. Over any sequence of calls no loop is removed twice and a removed
  loop is never active again; and two loops never share a tag, so the stop block of a
  removed loop is part of one program only.
\<close>
theorem compiled_program_parts:
  \<open>Coordinator_generateRuby s =
      s\<lparr>coordOutputRuby := Some (compiled_program s), deadLoops := [],
        runCode := runCode s @ [compiled_program s]\<rparr>
   \<and> compiled_program s =
       (''\<newline>      with_fx "sonic-pi-fx_scope_out", scope_num: 1 do\<newline>        ''
        @ (header @ ''\<newline>'' @ concat (map (\<lambda>r. js_string (getRuby s r) @ ''\<newline>'') (activeLoops s)))
        @ ''\<newline>      end\<newline>    '')
       @ concat (map (\<lambda>r. ''live_loop :'' @ getTag s r @ '' do\<newline>  stop\<newline>end\<newline>'') (deadLoops s))
   \<and> distinct (activeLoops (run e cs)) \<and> deadLoops (run e cs) = []
   \<and> (\<forall>r\<in>set (activeLoops (run e cs)).
        \<exists>l v. loops (run e cs) r = Some l \<and> 0 \<le> v \<and> v \<le> 1
          \<and> getTag (run e cs) r = tag l
          \<and> (\<exists>nm. tag l = ''loop_'' @ showNat r @ ''_'' @ nm)
          \<and> getRuby (run e cs) r =
              Some (''live_loop :'' @ tag l @ '' do\<newline>'' @
                    ''with_fx "sonic-pi-fx_scope_out", scope_num: '' @ js_number (scopeNum l) @ '' do\<newline>'' @
                    ''with_fx :level, amp: '' @ numberToString e v @ '' do\<newline>'' @
                    ''with_fx :'' @ name (effectData l) @ '' do\<newline>'' @
                    ''undefined'' @
                    ''\<newline>end\<newline>'' @ ''\<newline>end\<newline>'' @ ''\<newline>end\<newline>'' @ ''\<newline>end''))
   \<and> (runCode (run e (cs @ [c])) = runCode (run e cs)
       \<or> runCode (run e (cs @ [c])) = runCode (run e cs) @
            [(''\<newline>      with_fx "sonic-pi-fx_scope_out", scope_num: 1 do\<newline>        ''
              @ (header @ ''\<newline>''
                 @ concat (map (\<lambda>r. js_string (getRuby (run e (cs @ [c])) r) @ ''\<newline>'')
                            (activeLoops (run e (cs @ [c])))))
              @ ''\<newline>      end\<newline>    '')
             @ concat (map (\<lambda>r. ''live_loop :'' @ getTag (run e cs) r @ '' do\<newline>  stop\<newline>end\<newline>'')
                         (removed_by (run e cs) c))])
   \<and> (r \<in> set (activeLoops (run e cs)) \<longrightarrow>
        runCode (run e (cs @ [Delete r])) = runCode (run e cs) @
            [(''\<newline>      with_fx "sonic-pi-fx_scope_out", scope_num: 1 do\<newline>        ''
              @ (header @ ''\<newline>''
                 @ concat (map (\<lambda>r'. js_string (getRuby (run e (cs @ [Delete r])) r') @ ''\<newline>'')
                            (activeLoops (run e (cs @ [Delete r])))))
              @ ''\<newline>      end\<newline>    '')
             @ ''live_loop :'' @ getTag (run e cs) r @ '' do\<newline>  stop\<newline>end\<newline>'']
        \<and> r \<notin> set (activeLoops (run e (cs @ [Delete r]))))
   \<and> distinct (stopped e cs)
   \<and> set (stopped e cs) \<inter> set (activeLoops (run e cs)) = {}
   \<and> (loops (run e cs) r1 = Some l1 \<and> loops (run e cs') r2 = Some l2 \<and> tag l1 = tag l2 \<longrightarrow> r1 = r2)\<close>
proof -
  have ok: "registry_ok (run e cs)" by (rule registry_ok_run)
  have shape: \<open>compiled_program s =
       (''\<newline>      with_fx "sonic-pi-fx_scope_out", scope_num: 1 do\<newline>        ''
        @ (header @ ''\<newline>'' @ concat (map (\<lambda>r. js_string (getRuby s r) @ ''\<newline>'') (activeLoops s)))
        @ ''\<newline>      end\<newline>    '')
       @ concat (map (\<lambda>r. ''live_loop :'' @ getTag s r @ '' do\<newline>  stop\<newline>end\<newline>'') (deadLoops s))\<close>
    unfolding compiled_program_def global_wrap_text declarations_def stop_blocks_def stop_block_def
    by simp
  have sets: "distinct (activeLoops (run e cs))" "deadLoops (run e cs) = []"
    using ok by (simp_all add: registry_ok_def)
  have frag: \<open>\<forall>r\<in>set (activeLoops (run e cs)).
        \<exists>l v. loops (run e cs) r = Some l \<and> 0 \<le> v \<and> v \<le> 1
          \<and> getTag (run e cs) r = tag l
          \<and> (\<exists>nm. tag l = ''loop_'' @ showNat r @ ''_'' @ nm)
          \<and> getRuby (run e cs) r =
              Some (''live_loop :'' @ tag l @ '' do\<newline>'' @
                    ''with_fx "sonic-pi-fx_scope_out", scope_num: '' @ js_number (scopeNum l) @ '' do\<newline>'' @
                    ''with_fx :level, amp: '' @ numberToString e v @ '' do\<newline>'' @
                    ''with_fx :'' @ name (effectData l) @ '' do\<newline>'' @
                    ''undefined'' @
                    ''\<newline>end\<newline>'' @ ''\<newline>end\<newline>'' @ ''\<newline>end\<newline>'' @ ''\<newline>end'')\<close>
    using active_fragment [of _ e cs] unfolding declaration_block_def by blast
  have sends: \<open>runCode (run e (cs @ [c])) = runCode (run e cs)
       \<or> runCode (run e (cs @ [c])) = runCode (run e cs) @
            [(''\<newline>      with_fx "sonic-pi-fx_scope_out", scope_num: 1 do\<newline>        ''
              @ (header @ ''\<newline>''
                 @ concat (map (\<lambda>r. js_string (getRuby (run e (cs @ [c])) r) @ ''\<newline>'')
                            (activeLoops (run e (cs @ [c])))))
              @ ''\<newline>      end\<newline>    '')
             @ concat (map (\<lambda>r. ''live_loop :'' @ getTag (run e cs) r @ '' do\<newline>  stop\<newline>end\<newline>'')
                         (removed_by (run e cs) c))]\<close>
    using invoke_sends [OF ok, of e c]
    unfolding global_wrap_text declarations_def stop_blocks_def stop_block_def run_snoc
    by simp
  have removal: \<open>r \<in> set (activeLoops (run e cs)) \<longrightarrow>
        runCode (run e (cs @ [Delete r])) = runCode (run e cs) @
            [(''\<newline>      with_fx "sonic-pi-fx_scope_out", scope_num: 1 do\<newline>        ''
              @ (header @ ''\<newline>''
                 @ concat (map (\<lambda>r'. js_string (getRuby (run e (cs @ [Delete r])) r') @ ''\<newline>'')
                            (activeLoops (run e (cs @ [Delete r])))))
              @ ''\<newline>      end\<newline>    '')
             @ ''live_loop :'' @ getTag (run e cs) r @ '' do\<newline>  stop\<newline>end\<newline>'']
        \<and> r \<notin> set (activeLoops (run e (cs @ [Delete r])))\<close>
    using remove_sends [OF ok, of r e]
    unfolding global_wrap_text declarations_def stop_block_def run_snoc
    by simp
  have tags: "loops (run e cs) r1 = Some l1 \<and> loops (run e cs') r2 = Some l2 \<and> tag l1 = tag l2 \<longrightarrow> r1 = r2"
    using tags_differ [of e cs r1 l1 e cs' r2 l2] by blast
  show ?thesis
    using Coordinator_generateRuby_eq [of s] shape sets frag sends removal stopped_run [of e cs] tags
    by blast
qed

lemma second_loop_fragment:
  \<open>getRuby (run demo [New ''alpha'', New ''beta'']) (Suc 0) =
     Some (''live_loop :loop_1_beta do\<newline>'' @
           ''with_fx "sonic-pi-fx_scope_out", scope_num: 3 do\<newline>'' @
           ''with_fx :level, amp: 1 do\<newline>'' @
           ''with_fx :reverb do\<newline>'' @
           ''undefined'' @
           ''\<newline>end\<newline>'' @ ''\<newline>end\<newline>'' @ ''\<newline>end\<newline>'' @ ''\<newline>end'')\<close>
  using getRuby_new [of demo "''beta''" "run demo [New ''alpha'']"]
  by (simp add: run_two first_loop first_loop_pool showNat_digit js_number_def
        upt_conv_Cons [of 3 128] del: upt_rec_numeral)

theorem compiled_program_parts_witness:
  \<open>0 \<in> set (activeLoops (run demo [New ''alpha'', New ''beta'']))
   \<and> 1 \<in> set (activeLoops (run demo [New ''alpha'', New ''beta'']))
   \<and> getRuby (run demo [New ''alpha'', New ''beta'']) 1 =
     Some (''live_loop :loop_1_beta do\<newline>'' @
           ''with_fx "sonic-pi-fx_scope_out", scope_num: 3 do\<newline>'' @
           ''with_fx :level, amp: 1 do\<newline>'' @
           ''with_fx :reverb do\<newline>'' @
           ''undefined'' @
           ''\<newline>end\<newline>'' @ ''\<newline>end\<newline>'' @ ''\<newline>end\<newline>'' @ ''\<newline>end'')
   \<and> runCode (run demo [New ''alpha'', New ''beta'', Delete 0])
       = runCode (run demo [New ''alpha'', New ''beta'']) @
           [''\<newline>      with_fx "sonic-pi-fx_scope_out", scope_num: 1 do\<newline>        '' @
            header @ ''\<newline>'' @
            ''live_loop :loop_1_beta do\<newline>'' @
            ''with_fx "sonic-pi-fx_scope_out", scope_num: 3 do\<newline>'' @
            ''with_fx :level, amp: 1 do\<newline>'' @
            ''with_fx :reverb do\<newline>'' @
            ''undefined'' @
            ''\<newline>end\<newline>'' @ ''\<newline>end\<newline>'' @ ''\<newline>end\<newline>'' @ ''\<newline>end'' @ ''\<newline>'' @
            ''\<newline>      end\<newline>    '' @
            ''live_loop :loop_0_alpha do\<newline>  stop\<newline>end\<newline>'']
   \<and> activeLoops (run demo [New ''alpha'', New ''beta'', Delete 0]) = [1]
   \<and> deadLoops (run demo [New ''alpha'', New ''beta'', Delete 0]) = []
   \<and> stopped demo [New ''alpha'', New ''beta'', Delete 0] = [0]\<close>
proof -
  let ?cs = "[New ''alpha'', New ''beta'']"
  have a: "0 \<in> set (activeLoops (run demo ?cs))" "1 \<in> set (activeLoops (run demo ?cs))"
    by (simp_all add: two_loops)
  have st: "stopped demo [New ''alpha'', New ''beta'', Delete 0] = [0]"
    using stopped_snoc [of demo "[New ''alpha'', New ''beta'']" "Delete 0"]
      stopped_snoc [of demo "[New ''alpha'']" "New ''beta''"]
      stopped_snoc [of demo "[]" "New ''alpha''"]
    by (simp add: two_loops)
  have after: "getRuby (run demo [New ''alpha'', New ''beta'', Delete 0]) = getRuby (run demo ?cs)"
    by (simp add: first_of_two_removed_eq)
  note parts = compiled_program_parts [where e = demo and cs = ?cs and r = 0]
  have sent: \<open>runCode (run demo (?cs @ [Delete 0])) = runCode (run demo ?cs) @
            [(''\<newline>      with_fx "sonic-pi-fx_scope_out", scope_num: 1 do\<newline>        ''
              @ (header @ ''\<newline>''
                 @ concat (map (\<lambda>r'. js_string (getRuby (run demo (?cs @ [Delete 0])) r') @ ''\<newline>'')
                            (activeLoops (run demo (?cs @ [Delete 0])))))
              @ ''\<newline>      end\<newline>    '')
             @ ''live_loop :'' @ getTag (run demo ?cs) 0 @ '' do\<newline>  stop\<newline>end\<newline>'']\<close>
    using parts a(1) by blast
  have dead: "deadLoops (run demo [New ''alpha'', New ''beta'', Delete 0]) = []"
    by (simp add: first_of_two_removed_eq)
  show ?thesis
    using a st sent dead
    by (simp add: first_of_two_removed after second_loop_fragment first_of_two_tag js_string_def)
qed

subsection \<open>What the setters do on a removed loop\<close>

lemma recompiled_effect:
  assumes "rawRuby l = None"
  shows \<open>LiveLoop_generateRuby e (l\<lparr>effectNum := k, effectData := d\<rparr>) =
     l\<lparr>effectNum := k, effectData := d,
       outputRuby := Some
         (''live_loop :'' @ tag l @ '' do\<newline>'' @
          ''with_fx "sonic-pi-fx_scope_out", scope_num: '' @ js_number (scopeNum l) @ '' do\<newline>'' @
          ''with_fx :level, amp: '' @ numberToString e (volume l) @ '' do\<newline>'' @
          ''with_fx :'' @ name d @ '' do\<newline>'' @
          ''undefined'' @
          ''\<newline>end\<newline>'' @ ''\<newline>end\<newline>'' @ ''\<newline>end\<newline>'' @ ''\<newline>end'')\<rparr>\<close>
  using assms by (simp add: LiveLoop_generateRuby_def Let_def js_string_def)

lemma push_on_removed:
  assumes "loops s r = Some l" and "r \<notin> set (activeLoops s)" and "deadLoops s = []"
    and "\<And>l. tag (f l) = tag l"
  shows \<open>Coordinator_generateRuby (modify r f s) =
     s\<lparr>loops := (loops s)(r \<mapsto> f l),
       coordOutputRuby := Some
         (''\<newline>      with_fx "sonic-pi-fx_scope_out", scope_num: 1 do\<newline>        ''
          @ (header @ ''\<newline>'' @ concat (map (\<lambda>r'. js_string (getRuby s r') @ ''\<newline>'') (activeLoops s)))
          @ ''\<newline>      end\<newline>    ''),
       runCode := runCode s @
         [''\<newline>      with_fx "sonic-pi-fx_scope_out", scope_num: 1 do\<newline>        ''
          @ (header @ ''\<newline>'' @ concat (map (\<lambda>r'. js_string (getRuby s r') @ ''\<newline>'') (activeLoops s)))
          @ ''\<newline>      end\<newline>    '']\<rparr>\<close>
proof -
  have m: "modify r f s = s\<lparr>loops := (loops s)(r \<mapsto> f l)\<rparr>"
    using assms(1) by (simp add: modify_def)
  have "compiled_program (modify r f s) = compiled_program s"
    using assms(2,4) by (rule compiled_program_modify)
  also have \<open>\<dots> = ''\<newline>      with_fx "sonic-pi-fx_scope_out", scope_num: 1 do\<newline>        ''
          @ (header @ ''\<newline>'' @ concat (map (\<lambda>r'. js_string (getRuby s r') @ ''\<newline>'') (activeLoops s)))
          @ ''\<newline>      end\<newline>    ''\<close>
    using assms(3) by (simp add: compiled_program_no_dead global_wrap_text declarations_def)
  finally have p: \<open>compiled_program (modify r f s) =
          ''\<newline>      with_fx "sonic-pi-fx_scope_out", scope_num: 1 do\<newline>        ''
          @ (header @ ''\<newline>'' @ concat (map (\<lambda>r'. js_string (getRuby s r') @ ''\<newline>'') (activeLoops s)))
          @ ''\<newline>      end\<newline>    ''\<close> .
  show ?thesis
    unfolding Coordinator_generateRuby_eq p
    using assms(3) by (intro state.equality) (simp_all add: m)
qed


lemma demo_effects:
  "name (getEffect demo 2) = ''distortion''"
  "js_rem 2 3 = 2"
  "js_rem 0 3 = 0"
  by (simp_all add: demo_def effectNames_def js_rem_def)

lemma removed_after_effect:
  "activeLoops (run demo [New ''alpha'', NextEffect 0, Delete 0]) = []"
  "\<exists>l. loops (run demo [New ''alpha'', NextEffect 0, Delete 0]) 0 = Some l
       \<and> effectNum l = 1 \<and> tag l = ''loop_0_alpha'' \<and> scopeNum l = Some 2 \<and> volume l = 1"
proof -
  let ?s1 = "run demo [New ''alpha'']"
  let ?s2 = "run demo [New ''alpha'', NextEffect 0]"
  have s2: "?s2 = nextEffect demo 0 ?s1"
    by (simp add: run_two invoke_simps first_loop)
  have l2: "\<exists>l. loops ?s2 0 = Some l
       \<and> effectNum l = 1 \<and> tag l = ''loop_0_alpha'' \<and> scopeNum l = Some 2 \<and> volume l = 1"
    unfolding s2 by (simp add: loops_nextEffect first_loop js_rem_def)
  have a2: "activeLoops ?s2 = [0]"
    unfolding s2 by (simp add: first_loop)
  have live: "loops ?s2 0 \<noteq> None"
    using l2 by auto
  have s3: "run demo [New ''alpha'', NextEffect 0, Delete 0] =
      Coordinator_generateRuby
        (?s2\<lparr>activeLoops := removeAll 0 (activeLoops ?s2),
             deadLoops := set_add 0 (deadLoops ?s2),
             freeScopeNums := freeScopeNums ?s2 @ [getScopeNum ?s2 0]\<rparr>)"
    using live a2 by (simp add: run_three invoke_simps removeLoopFromSet_active)
  show "activeLoops (run demo [New ''alpha'', NextEffect 0, Delete 0]) = []"
    unfolding s3 by (simp add: a2)
  show "\<exists>l. loops (run demo [New ''alpha'', NextEffect 0, Delete 0]) 0 = Some l
       \<and> effectNum l = 1 \<and> tag l = ''loop_0_alpha'' \<and> scopeNum l = Some 2 \<and> volume l = 1"
    unfolding s3 using l2 by simp
qed


subsection \<open>The channels that are numbers\<close>

lemma mset_map_removeAll:
  "distinct xs \<Longrightarrow> r \<in> set xs \<Longrightarrow> mset (map f (removeAll r xs)) + {#f r#} = mset (map f xs)"
  by (induction xs) auto

lemma filter_numbers: "filter (\<lambda>c. c \<noteq> None) (map Some xs) = map Some xs"
  by (induction xs) simp_all

lemma channels_ok_fresh: "channels_ok fresh"
  unfolding channels_ok_def activeChannels_def
  by (simp only: fresh_simps list.map append_Nil filter_numbers)

lemma channels_ok_invoke:
  assumes "registry_ok s" and "channels_ok s"
  shows "channels_ok (fst (invoke e s c))"
proof (cases c e s rule: invoke_cases)
  case (New nm)
  let ?s' = "snd (LiveLoop_new e nm s)"
  have old: "map (getScopeNum ?s') (activeLoops s) = map (getScopeNum s) (activeLoops s)"
    using assms(1) by (intro map_cong refl) (auto simp: getScopeNum_new registry_ok_def list_all_iff)
  have act: "activeChannels ?s' = activeChannels s @ [fst (getFreeScope s)]"
    using old by (simp add: activeChannels_def registry_ok_new [OF assms(1)] getScopeNum_new)
  have "mset (filter (\<lambda>c. c \<noteq> None) ([fst (getFreeScope s)] @ tl (freeScopeNums s)))
      = mset (filter (\<lambda>c. c \<noteq> None) (freeScopeNums s))"
    by (cases "freeScopeNums s") simp_all
  then have "mset (filter (\<lambda>c. c \<noteq> None) (activeChannels ?s' @ freeScopeNums ?s'))
      = mset (filter (\<lambda>c. c \<noteq> None) (activeChannels s @ freeScopeNums s))"
    by (simp add: act new_simps)
  then show ?thesis
    using assms(2) by (simp only: channels_ok_def New(2))
next
  case (Remove r)
  have d: "distinct (activeLoops s)"
    using assms(1) by (simp add: registry_ok_def)
  have "mset (map (getScopeNum s) (removeAll r (activeLoops s))) + {#getScopeNum s r#}
      = mset (map (getScopeNum s) (activeLoops s))"
    using d Remove(2) by (rule mset_map_removeAll)
  then have "mset (map (getScopeNum s) (removeAll r (activeLoops s)) @ freeScopeNums s @ [getScopeNum s r])
      = mset (activeChannels s @ freeScopeNums s)"
    by (simp add: activeChannels_def)
  then have "mset (filter (\<lambda>c. c \<noteq> None)
        (map (getScopeNum s) (removeAll r (activeLoops s)) @ freeScopeNums s @ [getScopeNum s r]))
      = mset (filter (\<lambda>c. c \<noteq> None) (activeChannels s @ freeScopeNums s))"
    by (simp only: mset_filter)
  moreover have "activeChannels (fst (invoke e s c)) = map (getScopeNum s) (removeAll r (activeLoops s))"
    by (simp add: Remove(4) activeChannels_def)
  moreover have "freeScopeNums (fst (invoke e s c)) = freeScopeNums s @ [getScopeNum s r]"
    by (simp add: Remove(4))
  ultimately show ?thesis
    using assms(2) by (simp only: channels_ok_def)
next
  case Same
  then show ?thesis using assms(2) by (simp only:)
next
  case (Field r f)
  have "getScopeNum (fst (invoke e s c)) = getScopeNum s"
    using Field(2,7,8) by (auto simp: fun_eq_iff getScopeNum_def)
  then have "activeChannels (fst (invoke e s c)) = activeChannels s"
    by (simp only: activeChannels_def Field(4))
  then show ?thesis
    using assms(2) by (simp only: channels_ok_def Field(3))
qed

lemma channels_ok_run: "channels_ok (run e cs)"
proof -
  have "registry_ok (run e cs) \<and> channels_ok (run e cs)"
    by (induction rule: run_induct)
       (simp_all add: registry_ok_fresh channels_ok_fresh registry_ok_invoke channels_ok_invoke)
  then show ?thesis by simp
qed

text \<open>
  So in every run the channels that are numbers are pairwise distinct, whether held or
  free, and are the numbers 2 to 127; and as long as no active loop holds
  \<^verbatim>\<open>undefined\<close>, the channels held are pairwise distinct, within 2 and 127, and
  none of them is free.
\<close>

lemma numbered_channels:
  "distinct (filter (\<lambda>c. c \<noteq> None) (activeChannels (run e cs) @ freeScopeNums (run e cs)))"
  "set (filter (\<lambda>c. c \<noteq> None) (activeChannels (run e cs) @ freeScopeNums (run e cs)))
     = Some ` {2..<128}"
proof -
  let ?xs = "filter (\<lambda>c. c \<noteq> None) (activeChannels (run e cs) @ freeScopeNums (run e cs))"
  have m: "mset ?xs = mset (map Some [2..<128])"
    using channels_ok_run [of e cs] by (simp add: channels_ok_def)
  have "distinct (map Some [2..<128])"
    by (simp add: distinct_map del: upt_rec_numeral)
  then show "distinct ?xs"
    using m by (metis mset_eq_imp_distinct_iff)
  have "set ?xs = set (map Some [2..<128])"
    using m by (rule mset_eq_setD)
  then show "set ?xs = Some ` {2..<128}"
    by (simp del: upt_rec_numeral)
qed

lemma channels_before_exhaustion:
  assumes "None \<notin> set (activeChannels (run e cs))"
  shows "distinct (activeChannels (run e cs))"
    and "set (activeChannels (run e cs)) \<subseteq> Some ` {2..<128}"
    and "set (activeChannels (run e cs)) \<inter> set (freeScopeNums (run e cs)) = {}"
proof -
  let ?a = "activeChannels (run e cs)" and ?p = "freeScopeNums (run e cs)"
  have "\<forall>c\<in>set ?a. c \<noteq> None"
    using assms by metis
  then have a: "filter (\<lambda>c. c \<noteq> None) ?a = ?a"
    by (rule filter_True)
  have split: "filter (\<lambda>c. c \<noteq> None) (?a @ ?p) = ?a @ filter (\<lambda>c. c \<noteq> None) ?p"
    by (simp only: filter_append a)
  have d: "distinct (?a @ filter (\<lambda>c. c \<noteq> None) ?p)"
    using numbered_channels(1) [of e cs] by (simp only: split)
  have s: "set (?a @ filter (\<lambda>c. c \<noteq> None) ?p) = Some ` {2..<128}"
    using numbered_channels(2) [of e cs] by (simp only: split)
  show "distinct ?a"
    using d by simp
  have "set ?a \<subseteq> set (?a @ filter (\<lambda>c. c \<noteq> None) ?p)"
    by simp
  then show "set ?a \<subseteq> Some ` {2..<128}"
    by (simp only: s)
  have dis: "set ?a \<inter> set (filter (\<lambda>c. c \<noteq> None) ?p) = {}"
    using d by simp
  show "set ?a \<inter> set ?p = {}"
  proof (rule ccontr)
    assume "set ?a \<inter> set ?p \<noteq> {}"
    then obtain x where x: "x \<in> set ?a" "x \<in> set ?p"
      by blast
    then have "x \<noteq> None"
      using assms by metis
    then have "x \<in> set (filter (\<lambda>c. c \<noteq> None) ?p)"
      using x(2) by simp
    then show False
      using dis x(1) by blast
  qed
qed

end
